theory Spec2Isabelle
  imports Main "HOL-Library.Sublist"
begin

section \<open>Text primitives used by the recovery parser\<close>

text \<open>
  The parser of \<^verbatim>\<open>parse_util.py\<close> works on Python strings. A text is modelled as a
  \<^typ>\<open>string\<close>, each \<^typ>\<open>char\<close> standing for one code point in the range 0..255.
  The decoder of the standard library (\<^verbatim>\<open>json.loads\<close>) is not code of the repository:
  the parser takes it as the parameter \<open>loads\<close>, a function that gives \<open>Some\<close> value
  where the library returns and \<open>None\<close> where it raises \<^verbatim>\<open>JSONDecodeError\<close>.
\<close>

definition py_isspace :: "char \<Rightarrow> bool" where
  \<comment> \<open>\<^verbatim>\<open>str.isspace\<close> and the regular expression class \<^verbatim>\<open>\s\<close> on code points below 256\<close>
  "py_isspace c =
     (let n = (of_char c :: nat)
      in (9 \<le> n \<and> n \<le> 13) \<or> (28 \<le> n \<and> n \<le> 32) \<or> n = 133 \<or> n = 160)"

definition lstrip :: "string \<Rightarrow> string" where
  "lstrip s = dropWhile py_isspace s"

definition rstrip :: "string \<Rightarrow> string" where
  "rstrip s = rev (dropWhile py_isspace (rev s))"

definition strip :: "string \<Rightarrow> string" where
  "strip s = rstrip (lstrip s)"

definition endswith :: "string \<Rightarrow> char \<Rightarrow> bool" where
  \<comment> \<open>\<^verbatim>\<open>s.endswith(c)\<close> for a one-character suffix\<close>
  "endswith s c = (s \<noteq> [] \<and> last s = c)"

fun starts_with :: "string \<Rightarrow> string \<Rightarrow> bool" where
  \<comment> \<open>\<open>starts_with p s\<close>: the text \<open>s\<close> begins with \<open>p\<close>\<close>
  "starts_with [] s = True"
| "starts_with (p # ps) [] = False"
| "starts_with (p # ps) (c # cs) = (p = c \<and> starts_with ps cs)"

fun find_sub :: "string \<Rightarrow> string \<Rightarrow> nat option" where
  \<comment> \<open>index of the first occurrence of a pattern, \<open>None\<close> when there is none\<close>
  "find_sub p [] = (if p = [] then Some 0 else None)"
| "find_sub p (c # cs) =
     (if starts_with p (c # cs) then Some 0 else map_option Suc (find_sub p cs))"

fun find_char :: "char \<Rightarrow> string \<Rightarrow> int" where
  \<comment> \<open>\<^verbatim>\<open>text.find(c)\<close>: the first index of \<open>c\<close>, or -1\<close>
  "find_char x [] = -1"
| "find_char x (c # cs) =
     (if c = x then 0 else (let r = find_char x cs in if r = -1 then -1 else r + 1))"

definition rfind_char :: "char \<Rightarrow> string \<Rightarrow> int" where
  \<comment> \<open>\<^verbatim>\<open>text.rfind(c)\<close>: the last index of \<open>c\<close>, or -1\<close>
  "rfind_char x s =
     (let r = find_char x (rev s) in if r = -1 then -1 else int (length s) - 1 - r)"

definition slice :: "string \<Rightarrow> int \<Rightarrow> int \<Rightarrow> string" where
  \<comment> \<open>\<^verbatim>\<open>text[i:j]\<close> for \<open>0 \<le> i\<close> and \<open>0 \<le> j\<close>, the only use the parser makes of it\<close>
  "slice s i j = take (nat j - nat i) (drop (nat i) s)"

fun split_lines :: "string \<Rightarrow> string list" where
  \<comment> \<open>\<^verbatim>\<open>s.split('\n')\<close>: at least one piece, the pieces hold no newline\<close>
  "split_lines [] = [[]]"
| "split_lines (c # cs) =
     (if c = CHR 0x0A then [] # split_lines cs
      else (case split_lines cs of l # ls \<Rightarrow> (c # l) # ls | [] \<Rightarrow> [[c]]))"

fun join_lines :: "string list \<Rightarrow> string" where
  \<comment> \<open>\<^verbatim>\<open>'\n'.join(lines)\<close>\<close>
  "join_lines [] = []"
| "join_lines [l] = l"
| "join_lines (l # ls) = l @ CHR 0x0A # join_lines ls"

subsection \<open>The regular expressions of the parser\<close>

definition fence :: string where
  "fence = [CHR 0x60, CHR 0x60, CHR 0x60]"

fun is_json_tag :: "string \<Rightarrow> bool" where
  \<comment> \<open>the text begins with the four letters of \<^verbatim>\<open>json\<close>, in either case (\<^verbatim>\<open>re.IGNORECASE\<close>)\<close>
  "is_json_tag (a # b # c # d # _) =
     ((a = CHR ''j'' \<or> a = CHR ''J'') \<and> (b = CHR ''s'' \<or> b = CHR ''S'') \<and>
      (c = CHR ''o'' \<or> c = CHR ''O'') \<and> (d = CHR ''n'' \<or> d = CHR ''N''))"
| "is_json_tag _ = False"

text \<open>
  \<^verbatim>\<open>re.findall(r'```json\s*([\s\S]*?)\s*```', text, re.IGNORECASE)\<close> and
  \<^verbatim>\<open>re.findall(r'```\s*([\s\S]*?)\s*```', text)\<close>. The scan goes left to right. At a
  position where the opening fence (and the tag, for the tagged pattern) matches, the lazy
  group together with the greedy whitespace runs around it ends at the first closing fence
  that follows, so the group is the text between, without the whitespace at its two ends;
  the scan goes on after the closing fence. Where no closing fence follows, there is no
  match at that position and the scan moves on by one character.
\<close>

function findall_fenced :: "bool \<Rightarrow> string \<Rightarrow> string list" where
  "findall_fenced tagged [] = []"
| "findall_fenced tagged (c # cs) =
     (let s = c # cs; body = drop (if tagged then 7 else 3) s
      in if starts_with fence s \<and> (tagged \<longrightarrow> is_json_tag (drop 3 s))
         then (case find_sub fence body of
                 Some q \<Rightarrow> strip (take q body) # findall_fenced tagged (drop (q + 3) body)
               | None \<Rightarrow> findall_fenced tagged cs)
         else findall_fenced tagged cs)"
  by pat_completeness auto
termination
  by (relation "measure (\<lambda>(tagged, s). length s)") auto

text \<open>
  \<^verbatim>\<open>re.sub(r'//.*?$', '', s, flags=re.MULTILINE)\<close>: from each \<^verbatim>\<open>//\<close> up to, not
  including, the next newline (or the end of the text).
\<close>

function strip_line_comments :: "string \<Rightarrow> string" where
  "strip_line_comments [] = []"
| "strip_line_comments (c # cs) =
     (if starts_with ''//'' (c # cs)
      then strip_line_comments (dropWhile (\<lambda>x. x \<noteq> CHR 0x0A) (drop 2 (c # cs)))
      else c # strip_line_comments cs)"
  by pat_completeness auto
termination
  by (relation "measure length")
     (auto simp: less_Suc_eq_le intro: le_trans [OF length_dropWhile_le])

text \<open>
  \<^verbatim>\<open>re.sub(r'/\*.*?\*/', '', s, flags=re.DOTALL)\<close>: from each \<^verbatim>\<open>/*\<close> through the first
  \<^verbatim>\<open>*/\<close> that follows it; an opener with no closer stays.
\<close>

function strip_block_comments :: "string \<Rightarrow> string" where
  "strip_block_comments [] = []"
| "strip_block_comments (c # cs) =
     (if starts_with ''/*'' (c # cs)
      then (case find_sub ''*/'' (drop 2 (c # cs)) of
              Some q \<Rightarrow> strip_block_comments (drop (q + 2) (drop 2 (c # cs)))
            | None \<Rightarrow> c # strip_block_comments cs)
      else c # strip_block_comments cs)"
  by pat_completeness auto
termination
  by (relation "measure length") auto

text \<open>
  \<^verbatim>\<open>re.sub(r',(\s*[}\]])', r'\1', s)\<close>: a comma followed by whitespace and a closing
  brace or bracket is dropped, the whitespace and the closer stay. The kept part holds no
  comma, so scanning on right after the comma gives the same text as scanning on after the
  closer.
\<close>

definition closer_follows :: "string \<Rightarrow> bool" where
  "closer_follows s =
     (case dropWhile py_isspace s of [] \<Rightarrow> False | c # _ \<Rightarrow> c = CHR ''}'' \<or> c = CHR '']'')"

fun remove_trailing_commas :: "string \<Rightarrow> string" where
  "remove_trailing_commas [] = []"
| "remove_trailing_commas (c # cs) =
     (if c = CHR '','' \<and> closer_follows cs then remove_trailing_commas cs
      else c # remove_trailing_commas cs)"

definition repair :: "string \<Rightarrow> string" where
  \<comment> \<open>the three repair passes of strategy 4, in the source's order\<close>
  "repair s = remove_trailing_commas (strip_block_comments (strip_line_comments s))"

section \<open>The recovery parser\<close>

text \<open>
  The exceptions that the parser, the stage adapters and their collaborators raise. The
  last constructor stands for whatever the collaborators outside the repository raise
  (a transport error of the model client, a missing prompt template).
\<close>

datatype exn =
    ValueError string
  | JSONDecodeError string string nat
  | TypeError
  | AttributeError
  | KeyError string
  | IndexError
  | ValidationError
  | HTTPException nat string
  | RecursionError
  | OtherError string


fun isinstance_JSONDecodeError :: "exn \<Rightarrow> bool" where
  "isinstance_JSONDecodeError (JSONDecodeError _ _ _) = True"
| "isinstance_JSONDecodeError _ = False"

definition empty_input_msg :: string where
  \<comment> \<open>the source's message is a Chinese sentence of this meaning, outside the 8-bit alphabet\<close>
  "empty_input_msg = ''input text is empty''"

definition no_json_msg :: "string \<Rightarrow> string" where
  \<comment> \<open>the source's message: a Chinese sentence of this meaning around \<^verbatim>\<open>text[:200]\<close>\<close>
  "no_json_msg text = ''no valid JSON could be extracted; text starts: '' @ take 200 text @ ''...''"

datatype 'v outcome =
    Decoded 'v
  | Invalid
  | Raises exn

text \<open>
  One call of \<^verbatim>\<open>json.loads\<close> has three outcomes: it returns a value (\<open>Decoded\<close>), it
  raises \<^verbatim>\<open>json.JSONDecodeError\<close> (\<open>Invalid\<close>), or it raises another exception
  (\<open>Raises\<close>): \<^verbatim>\<open>RecursionError\<close> on a text nested too deeply, a plain
  \<^verbatim>\<open>ValueError\<close> on an integer literal above the interpreter's digit limit. Every
  \<^verbatim>\<open>except\<close> clause of \<^verbatim>\<open>robust_json_parse\<close> names \<^verbatim>\<open>json.JSONDecodeError\<close> only, so
  the second outcome lets the function go on and the third leaves it at once. The same
  type is the result of a strategy: it returned, it fell through, or an exception
  escaped from it.
\<close>

fun first_parse :: "(string \<Rightarrow> 'v outcome) \<Rightarrow> string list \<Rightarrow> 'v outcome" where
  \<comment> \<open>strategy 1: the first tagged block whose trimmed content decodes\<close>
  "first_parse loads [] = Invalid"
| "first_parse loads (m # ms) =
     (case loads (strip m) of
        Decoded v \<Rightarrow> Decoded v
      | Invalid \<Rightarrow> first_parse loads ms
      | Raises e \<Rightarrow> Raises e)"

fun first_parse_plain :: "(string \<Rightarrow> 'v outcome) \<Rightarrow> string list \<Rightarrow> 'v outcome" where
  \<comment> \<open>strategy 2: untagged blocks, only those that begin with a brace or a bracket\<close>
  "first_parse_plain loads [] = Invalid"
| "first_parse_plain loads (m # ms) =
     (let cleaned = strip m
      in if cleaned \<noteq> [] \<and> (hd cleaned = CHR ''{'' \<or> hd cleaned = CHR ''['')
         then (case loads cleaned of
                 Decoded v \<Rightarrow> Decoded v
               | Invalid \<Rightarrow> first_parse_plain loads ms
               | Raises e \<Rightarrow> Raises e)
         else first_parse_plain loads ms)"

fun shrink_lines :: "(string \<Rightarrow> 'v outcome) \<Rightarrow> string list \<Rightarrow> nat \<Rightarrow> 'v outcome" where
  \<comment> \<open>strategy 5: \<^verbatim>\<open>for i in range(len(lines), 0, -1)\<close>, started at \<open>i = len(lines)\<close>\<close>
  "shrink_lines loads lines 0 = Invalid"
| "shrink_lines loads lines (Suc i) =
     (let partial = join_lines (take (Suc i) lines)
      in if endswith (rstrip partial) CHR ''}''
         then (case loads partial of
                 Decoded v \<Rightarrow> Decoded v
               | Invalid \<Rightarrow> shrink_lines loads lines i
               | Raises e \<Rightarrow> Raises e)
         else shrink_lines loads lines i)"

definition brace_strategies :: "(string \<Rightarrow> 'v outcome) \<Rightarrow> string \<Rightarrow> 'v outcome" where
  \<comment> \<open>strategies 3 to 5, on the text from the first opening to the last closing brace\<close>
  "brace_strategies loads text =
     (let first_brace = find_char CHR ''{'' text; last_brace = rfind_char CHR ''}'' text
      in if first_brace \<noteq> -1 \<and> last_brace \<noteq> -1 \<and> last_brace > first_brace
         then (let json_str = slice text first_brace (last_brace + 1)
               in case loads json_str of
                    Decoded v \<Rightarrow> Decoded v
                  | Raises e \<Rightarrow> Raises e
                  | Invalid \<Rightarrow>
                      (let json_str = repair json_str
                       in case loads json_str of
                            Decoded v \<Rightarrow> Decoded v
                          | Raises e \<Rightarrow> Raises e
                          | Invalid \<Rightarrow>
                              (let lines = split_lines json_str
                               in shrink_lines loads lines (length lines))))
         else Invalid)"

definition bracket_strategy :: "(string \<Rightarrow> 'v outcome) \<Rightarrow> string \<Rightarrow> 'v outcome" where
  \<comment> \<open>strategy 6, on the text from the first opening to the last closing bracket\<close>
  "bracket_strategy loads text =
     (let first_bracket = find_char CHR ''['' text; last_bracket = rfind_char CHR '']'' text
      in if first_bracket \<noteq> -1 \<and> last_bracket \<noteq> -1 \<and> last_bracket > first_bracket
         then loads (slice text first_bracket (last_bracket + 1))
         else Invalid)"

definition robust_json_parse :: "(string \<Rightarrow> 'v outcome) \<Rightarrow> string \<Rightarrow> exn + 'v" where
  \<comment> \<open>\<open>Inl e\<close>: the call raises \<open>e\<close>, its own or one that escaped from the decoder\<close>
  "robust_json_parse loads text =
     (if text = [] \<or> strip text = [] then Inl (ValueError empty_input_msg)
      else case first_parse loads (findall_fenced True text) of
        Decoded v \<Rightarrow> Inr v
      | Raises e \<Rightarrow> Inl e
      | Invalid \<Rightarrow>
     (case first_parse_plain loads (findall_fenced False text) of
        Decoded v \<Rightarrow> Inr v
      | Raises e \<Rightarrow> Inl e
      | Invalid \<Rightarrow>
     (case brace_strategies loads text of
        Decoded v \<Rightarrow> Inr v
      | Raises e \<Rightarrow> Inl e
      | Invalid \<Rightarrow>
     (case bracket_strategy loads text of
        Decoded v \<Rightarrow> Inr v
      | Raises e \<Rightarrow> Inl e
      | Invalid \<Rightarrow> Inl (JSONDecodeError (no_json_msg text) text 0)))))"

section \<open>Decoded values and the strict decoder\<close>

text \<open>
  What \<^verbatim>\<open>json.loads\<close> returns: \<^verbatim>\<open>None\<close>, a bool, an int, a float, a str, a list or
  a dict. A dict is an association list with distinct keys, in the order of first
  insertion. Floating point is not modelled: a float is kept as the lexeme it was read from.
\<close>

datatype json =
    JNull
  | JBool bool
  | JInt int
  | JFloat string
  | JStr string
  | JArr "json list"
  | JObj "(string \<times> json) list"

fun is_JObj :: "json \<Rightarrow> bool" where
  \<comment> \<open>\<^verbatim>\<open>isinstance(v, dict)\<close>\<close>
  "is_JObj (JObj _) = True"
| "is_JObj _ = False"

fun is_JArr :: "json \<Rightarrow> bool" where
  \<comment> \<open>\<^verbatim>\<open>isinstance(v, list)\<close>\<close>
  "is_JArr (JArr _) = True"
| "is_JArr _ = False"

fun dict_set :: "(string \<times> json) list \<Rightarrow> string \<Rightarrow> json \<Rightarrow> (string \<times> json) list" where
  \<comment> \<open>\<^verbatim>\<open>d[k] = v\<close>: a key already present keeps its place and takes the new value\<close>
  "dict_set [] k v = [(k, v)]"
| "dict_set ((k', v') # d) k v = (if k' = k then (k, v) # d else (k', v') # dict_set d k v)"

text \<open>
  A model of the library's strict decoder, after \<^verbatim>\<open>json/decoder.py\<close> and
  \<^verbatim>\<open>json/scanner.py\<close>, for the evaluation of the parser on concrete texts. The recursion
  of the decoder is bounded by a fuel that each call passes on decremented; two nested
  calls consume at least one character, so \<open>2 * length s + 2\<close> is never used up. An
  escape \<^verbatim>\<open>\uXXXX\<close> of a code point above 255 names a character outside the 8-bit
  alphabet of this model and is rejected here. This is the grammar alone: the limits of
  the interpreter come with \<open>py_loads\<close> below.
\<close>

definition json_ws :: "char \<Rightarrow> bool" where
  \<comment> \<open>\<^verbatim>\<open>WHITESPACE = re.compile(r'[ \t\n\r]*')\<close>\<close>
  "json_ws c = (c = CHR '' '' \<or> c = CHR 0x09 \<or> c = CHR 0x0A \<or> c = CHR 0x0D)"

definition skip_ws :: "string \<Rightarrow> string" where
  "skip_ws s = dropWhile json_ws s"

definition is_digit :: "char \<Rightarrow> bool" where
  "is_digit c = (let n = (of_char c :: nat) in 48 \<le> n \<and> n \<le> 57)"

definition digits_value :: "string \<Rightarrow> int" where
  "digits_value ds = foldl (\<lambda>a c. 10 * a + (int (of_char c) - 48)) 0 ds"

fun hexval :: "char \<Rightarrow> nat option" where
  "hexval c =
     (let n = (of_char c :: nat)
      in if 48 \<le> n \<and> n \<le> 57 then Some (n - 48)
         else if 65 \<le> n \<and> n \<le> 70 then Some (n - 55)
         else if 97 \<le> n \<and> n \<le> 102 then Some (n - 87)
         else None)"

fun unescape :: "char \<Rightarrow> char option" where
  \<comment> \<open>the table \<^verbatim>\<open>BACKSLASH\<close>\<close>
  "unescape c =
     (if c = CHR 0x22 then Some (CHR 0x22)
      else if c = CHR 0x5C then Some (CHR 0x5C)
      else if c = CHR ''/'' then Some (CHR ''/'')
      else if c = CHR ''b'' then Some (CHR 0x08)
      else if c = CHR ''f'' then Some (CHR 0x0C)
      else if c = CHR ''n'' then Some (CHR 0x0A)
      else if c = CHR ''r'' then Some (CHR 0x0D)
      else if c = CHR ''t'' then Some (CHR 0x09)
      else None)"

definition unicode_escape :: "char \<Rightarrow> char \<Rightarrow> char \<Rightarrow> char \<Rightarrow> char option" where
  "unicode_escape a b c d =
     (case (hexval a, hexval b, hexval c, hexval d) of
        (Some x, Some y, Some z, Some w) \<Rightarrow>
          (let n = 4096 * x + 256 * y + 16 * z + w in if n < 256 then Some (char_of n) else None)
      | _ \<Rightarrow> None)"

fun scanstring :: "string \<Rightarrow> (string \<times> string) option" where
  \<comment> \<open>the text after an opening quote: the decoded string and what follows the closing quote\<close>
  "scanstring [] = None"
| "scanstring (c # cs) =
     (if c = CHR 0x22 then Some ([], cs)
      else if c = CHR 0x5C then
        (case cs of
           [] \<Rightarrow> None
         | e # cs' \<Rightarrow>
             if e = CHR ''u'' then
               (case cs' of
                  h1 # h2 # h3 # h4 # cs'' \<Rightarrow>
                    (case unicode_escape h1 h2 h3 h4 of
                       None \<Rightarrow> None
                     | Some x \<Rightarrow> map_option (\<lambda>(t, r). (x # t, r)) (scanstring cs''))
                | _ \<Rightarrow> None)
             else
               (case unescape e of
                  None \<Rightarrow> None
                | Some x \<Rightarrow> map_option (\<lambda>(t, r). (x # t, r)) (scanstring cs')))
      else if (of_char c :: nat) < 32 then None
      else map_option (\<lambda>(t, r). (c # t, r)) (scanstring cs))"

definition match_frac :: "string \<Rightarrow> string \<times> string" where
  \<comment> \<open>the optional group \<^verbatim>\<open>(\.[0-9]+)?\<close>\<close>
  "match_frac s =
     (case s of
        p # d # r \<Rightarrow>
          if p = CHR ''.'' \<and> is_digit d
          then (p # d # takeWhile is_digit r, dropWhile is_digit r) else ([], s)
      | _ \<Rightarrow> ([], s))"

definition match_exp :: "string \<Rightarrow> string \<times> string" where
  \<comment> \<open>the optional group \<^verbatim>\<open>([eE][-+]?[0-9]+)?\<close>\<close>
  "match_exp s =
     (case s of
        e # r \<Rightarrow>
          if e = CHR ''e'' \<or> e = CHR ''E'' then
            (case r of
               g # d # r' \<Rightarrow>
                 if (g = CHR ''+'' \<or> g = CHR ''-'') \<and> is_digit d
                 then (e # g # d # takeWhile is_digit r', dropWhile is_digit r')
                 else if is_digit g
                 then (e # g # takeWhile is_digit (d # r'), dropWhile is_digit (d # r'))
                 else ([], s)
             | [g] \<Rightarrow> if is_digit g then ([e, g], []) else ([], s)
             | [] \<Rightarrow> ([], s))
          else ([], s)
      | [] \<Rightarrow> ([], s))"

definition match_int :: "string \<Rightarrow> (string \<times> string) option" where
  \<comment> \<open>the group \<^verbatim>\<open>(-?(?:0|[1-9][0-9]*))\<close>\<close>
  "match_int s =
     (let (sign, s1) = (case s of c # r \<Rightarrow> if c = CHR ''-'' then ([c], r) else ([], s) | [] \<Rightarrow> ([], s))
      in case s1 of
           [] \<Rightarrow> None
         | c # cs \<Rightarrow>
             if c = CHR ''0'' then Some (sign @ [c], cs)
             else if is_digit c then Some (sign @ c # takeWhile is_digit cs, dropWhile is_digit cs)
             else None)"

definition int_of_lexeme :: "string \<Rightarrow> int" where
  "int_of_lexeme l =
     (case l of c # r \<Rightarrow> if c = CHR ''-'' then - digits_value r else digits_value l | [] \<Rightarrow> 0)"

definition match_number :: "string \<Rightarrow> (json \<times> string) option" where
  \<comment> \<open>\<^verbatim>\<open>NUMBER_RE.match\<close>: an int when there is neither fraction nor exponent\<close>
  "match_number s =
     (case match_int s of
        None \<Rightarrow> None
      | Some (integer, r) \<Rightarrow>
          (let (frac, r1) = match_frac r; (ex, r2) = match_exp r1
           in if frac = [] \<and> ex = [] then Some (JInt (int_of_lexeme integer), r2)
              else Some (JFloat (integer @ frac @ ex), r2)))"

definition scan_scalar :: "string \<Rightarrow> (json \<times> string) option" where
  \<comment> \<open>the branches of the scanner for the literals and the numbers\<close>
  "scan_scalar s =
     (if starts_with ''null'' s then Some (JNull, drop 4 s)
      else if starts_with ''true'' s then Some (JBool True, drop 4 s)
      else if starts_with ''false'' s then Some (JBool False, drop 5 s)
      else
        (case match_number s of
           Some m \<Rightarrow> Some m
         | None \<Rightarrow>
             if starts_with ''NaN'' s then Some (JFloat ''NaN'', drop 3 s)
             else if starts_with ''Infinity'' s then Some (JFloat ''Infinity'', drop 8 s)
             else if starts_with ''-Infinity'' s then Some (JFloat ''-Infinity'', drop 9 s)
             else None))"

fun scan_once :: "nat \<Rightarrow> string \<Rightarrow> (json \<times> string) option"
  and array_loop :: "nat \<Rightarrow> string \<Rightarrow> json list \<Rightarrow> (json \<times> string) option"
  and object_loop :: "nat \<Rightarrow> string \<Rightarrow> (string \<times> json) list \<Rightarrow> (json \<times> string) option"
where
  "scan_once 0 s = None"
| "scan_once (Suc n) [] = None"
| "scan_once (Suc n) (c # cs) =
     (if c = CHR 0x22 then map_option (\<lambda>(t, r). (JStr t, r)) (scanstring cs)
      else if c = CHR ''{'' then
        (case skip_ws cs of
           [] \<Rightarrow> None
         | d # r \<Rightarrow>
             if d = CHR ''}'' then Some (JObj [], r)
             else if d = CHR 0x22 then object_loop n r []
             else None)
      else if c = CHR ''['' then
        (case skip_ws cs of
           [] \<Rightarrow> None
         | d # r \<Rightarrow> if d = CHR '']'' then Some (JArr [], r) else array_loop n (d # r) [])
      else scan_scalar (c # cs))"
| "array_loop 0 s acc = None"
| "array_loop (Suc n) s acc =
     (case scan_once n s of
        None \<Rightarrow> None
      | Some (v, r) \<Rightarrow>
          (case skip_ws r of
             [] \<Rightarrow> None
           | d # r' \<Rightarrow>
               if d = CHR '']'' then Some (JArr (acc @ [v]), r')
               else if d = CHR '','' then array_loop n (skip_ws r') (acc @ [v])
               else None))"
| "object_loop 0 s acc = None"
| "object_loop (Suc n) s acc =
     (case scanstring s of
        None \<Rightarrow> None
      | Some (key, r) \<Rightarrow>
          (case skip_ws r of
             [] \<Rightarrow> None
           | d # r1 \<Rightarrow>
               if d \<noteq> CHR '':'' then None
               else
                 (case scan_once n (skip_ws r1) of
                    None \<Rightarrow> None
                  | Some (v, r2) \<Rightarrow>
                      (case skip_ws r2 of
                         [] \<Rightarrow> None
                       | d' # r3 \<Rightarrow>
                           if d' = CHR ''}'' then Some (JObj (dict_set acc key v), r3)
                           else if d' = CHR '','' then
                             (case skip_ws r3 of
                                [] \<Rightarrow> None
                              | q # r4 \<Rightarrow>
                                  if q = CHR 0x22 then object_loop n r4 (dict_set acc key v)
                                  else None)
                           else None))))"

definition strip_ws :: "string \<Rightarrow> string" where
  \<comment> \<open>the text without the JSON whitespace at its two ends\<close>
  "strip_ws s = rev (skip_ws (rev (skip_ws s)))"

definition json_loads :: "string \<Rightarrow> json option" where
  \<comment> \<open>\<^verbatim>\<open>json.loads(s)\<close>: exactly one value between optional whitespace\<close>
  "json_loads s =
     (let t = strip_ws s
      in case scan_once (2 * length t + 2) t of
           None \<Rightarrow> None
         | Some (v, r) \<Rightarrow> if r = [] then Some v else None)"

definition recursion_limit :: nat where
  \<comment> \<open>\<^verbatim>\<open>sys.getrecursionlimit()\<close>, by default\<close>
  "recursion_limit = 1000"

definition opening_depth :: "string \<Rightarrow> nat" where
  \<comment> \<open>the number of brackets a text opens with: the scanner is that many calls deep
      before it reads anything else\<close>
  "opening_depth s = length (takeWhile (\<lambda>c. c = CHR ''['') s)"

definition py_loads :: "string \<Rightarrow> json outcome" where
  \<comment> \<open>\<^verbatim>\<open>json.loads(s)\<close> with its three outcomes. The scanner calls itself once for each
      level of nesting, and the interpreter raises \<^verbatim>\<open>RecursionError\<close> when the calls,
      added to the frames already on the stack, reach its limit. Of the texts nested too
      deeply, those that open with that many brackets are modelled; the digit limit of
      an integer literal is not.\<close>
  "py_loads s =
     (if recursion_limit \<le> opening_depth (strip_ws s) then Raises RecursionError
      else case json_loads s of Some v \<Rightarrow> Decoded v | None \<Rightarrow> Invalid)"

fun has_tagged_opening :: "string \<Rightarrow> bool" where
  \<comment> \<open>somewhere in the text an opening fence with the tag begins\<close>
  "has_tagged_opening [] = False"
| "has_tagged_opening (c # cs) =
     ((starts_with fence (c # cs) \<and> is_json_tag (drop 3 (c # cs))) \<or> has_tagged_opening cs)"


section \<open>The stage adapters\<close>

subsection \<open>Python operations on decoded values\<close>

definition int_of_exponent :: "string \<Rightarrow> int" where
  \<comment> \<open>the digits after \<^verbatim>\<open>e\<close>, with their optional sign\<close>
  "int_of_exponent ex =
     (case ex of
        c # r \<Rightarrow> if c = CHR ''-'' then - digits_value r
                 else if c = CHR ''+'' then digits_value r else digits_value ex
      | [] \<Rightarrow> 0)"

definition float_nonzero :: "string \<Rightarrow> bool" where
  \<comment> \<open>truth value of \<^verbatim>\<open>float(l)\<close> for the lexeme \<open>l\<close> of a JSON number with a fraction or an
      exponent. The lexeme denotes \<open>m * 10 ^ e\<close>; the conversion rounds to the nearest
      double, ties to even, so the result is zero exactly when the value is at most
      \<open>2 ^ -1075\<close>, half the least subnormal. \<^verbatim>\<open>NaN\<close> and the infinities are true.\<close>
  "float_nonzero l =
     (if l = ''NaN'' \<or> l = ''Infinity'' \<or> l = ''-Infinity'' then True
      else let body = (case l of c # r \<Rightarrow> if c = CHR ''-'' then r else l | [] \<Rightarrow> l);
               mant = takeWhile (\<lambda>c. c \<noteq> CHR ''e'' \<and> c \<noteq> CHR ''E'') body;
               ex = drop (length mant + 1) body;
               whole = takeWhile (\<lambda>c. c \<noteq> CHR ''.'') mant;
               frac = drop (length whole + 1) mant;
               m = digits_value (whole @ frac);
               e = int_of_exponent ex - int (length frac)
           in m \<noteq> 0 \<and> (0 \<le> e \<or> 10 ^ nat (- e) < m * 2 ^ 1075))"

fun py_truthy :: "json \<Rightarrow> bool" where
  \<comment> \<open>\<^verbatim>\<open>bool(v)\<close>\<close>
  "py_truthy JNull = False"
| "py_truthy (JBool b) = b"
| "py_truthy (JInt i) = (i \<noteq> 0)"
| "py_truthy (JFloat l) = float_nonzero l"
| "py_truthy (JStr s) = (s \<noteq> [])"
| "py_truthy (JArr xs) = (xs \<noteq> [])"
| "py_truthy (JObj m) = (m \<noteq> [])"

fun py_len :: "json \<Rightarrow> exn + nat" where
  \<comment> \<open>\<^verbatim>\<open>len(v)\<close>\<close>
  "py_len (JStr s) = Inr (length s)"
| "py_len (JArr xs) = Inr (length xs)"
| "py_len (JObj m) = Inr (length m)"
| "py_len _ = Inl TypeError"

fun py_iter :: "json \<Rightarrow> exn + json list" where
  \<comment> \<open>the items a \<^verbatim>\<open>for\<close> loop over \<open>v\<close> visits: a dict gives its keys, a str its characters\<close>
  "py_iter (JArr xs) = Inr xs"
| "py_iter (JObj m) = Inr (map (\<lambda>(k, _). JStr k) m)"
| "py_iter (JStr s) = Inr (map (\<lambda>c. JStr [c]) s)"
| "py_iter _ = Inl TypeError"

fun py_get :: "json \<Rightarrow> string \<Rightarrow> json \<Rightarrow> exn + json" where
  \<comment> \<open>\<^verbatim>\<open>v.get(key, default)\<close>: only a dict has the method\<close>
  "py_get (JObj m) k d = Inr (case map_of m k of Some v \<Rightarrow> v | None \<Rightarrow> d)"
| "py_get _ k d = Inl AttributeError"

fun py_getitem :: "json \<Rightarrow> string \<Rightarrow> exn + json" where
  \<comment> \<open>\<^verbatim>\<open>v[key]\<close> for a string key\<close>
  "py_getitem (JObj m) k = (case map_of m k of Some v \<Rightarrow> Inr v | None \<Rightarrow> Inl (KeyError k))"
| "py_getitem _ k = Inl TypeError"

definition and_then :: "exn + 'a \<Rightarrow> ('a \<Rightarrow> exn + 'b) \<Rightarrow> exn + 'b" where
  \<comment> \<open>sequencing inside a \<^verbatim>\<open>try\<close> block: the first exception ends the block\<close>
  "and_then r f = (case r of Inl e \<Rightarrow> Inl e | Inr x \<Rightarrow> f x)"

fun each :: "('a \<Rightarrow> exn + 'b) \<Rightarrow> 'a list \<Rightarrow> exn + 'b list" where
  \<comment> \<open>a loop or comprehension over a list, ended by the first exception\<close>
  "each f [] = Inr []"
| "each f (x # xs) = and_then (f x) (\<lambda>y. and_then (each f xs) (\<lambda>ys. Inr (y # ys)))"

subsection \<open>The adapters of \<^verbatim>\<open>generate_chain.py\<close>\<close>

text \<open>
  Each adapter returns a display text, a status line and the records. The status lines
  and the head of the error display carry symbols outside the 8-bit alphabet; they are
  modelled by constructors, the exception standing for \<^verbatim>\<open>str(e)\<close>. The conversion
  \<^verbatim>\<open>str(v)\<close> of a decoded value inside the f-strings is the parameter \<open>pystr\<close>.
\<close>

datatype display =
    Rendered string
  | Parse_failed exn string

datatype status =
    Generation_complete
  | Error exn

definition raw_preview :: "string \<Rightarrow> string" where
  \<comment> \<open>\<^verbatim>\<open>{response[:500]}{'...' if len(str(response)) > 500 else ''}\<close>\<close>
  "raw_preview response = take 500 response @ (if length response > 500 then ''...'' else [])"

definition field :: "(json \<Rightarrow> string) \<Rightarrow> json \<Rightarrow> string \<Rightarrow> string \<Rightarrow> exn + string" where
  \<comment> \<open>\<^verbatim>\<open>{item.get(key, default)}\<close> inside an f-string\<close>
  "field pystr item k d = and_then (py_get item k (JStr d)) (\<lambda>v. Inr (pystr v))"

definition has_key :: "json \<Rightarrow> string \<Rightarrow> bool" where
  \<comment> \<open>\<^verbatim>\<open>isinstance(result, dict) and key in result\<close>\<close>
  "has_key result k = (case result of JObj m \<Rightarrow> map_of m k \<noteq> None | _ \<Rightarrow> False)"

definition render_feature :: "(json \<Rightarrow> string) \<Rightarrow> json \<Rightarrow> exn + string" where
  "render_feature pystr feature =
     and_then (field pystr feature ''id'' ''?'') (\<lambda>a.
     and_then (field pystr feature ''name'' ''Unknown'') (\<lambda>b.
     and_then (field pystr feature ''description'' ''No description'') (\<lambda>c.
     Inr (''### '' @ a @ ''. '' @ b @ [CHR 0x0A] @ c @ [CHR 0x0A, CHR 0x0A]))))"

definition feature_choice :: "(json \<Rightarrow> string) \<Rightarrow> json \<Rightarrow> exn + string" where
  \<comment> \<open>\<^verbatim>\<open>f"{feature['id']}. {feature['name']}"\<close>\<close>
  "feature_choice pystr feature =
     and_then (py_getitem feature ''id'') (\<lambda>a.
     and_then (py_getitem feature ''name'') (\<lambda>b.
     Inr (pystr a @ ''. '' @ pystr b)))"

definition parse_features_try ::
  "(string \<Rightarrow> json outcome) \<Rightarrow> (json \<Rightarrow> string) \<Rightarrow> string \<Rightarrow> exn + (string \<times> json \<times> string list)" where
  \<comment> \<open>the \<^verbatim>\<open>try\<close> block of \<^verbatim>\<open>parse_features\<close>\<close>
  "parse_features_try loads pystr response =
     and_then (robust_json_parse loads response) (\<lambda>result.
     if \<not> is_JObj result \<or> \<not> has_key result ''features''
     then Inl (ValueError ''Parse error: missing 'features' field'')
     else
     and_then (py_get result ''features'' (JArr [])) (\<lambda>features.
     and_then (if features = JNull then Inr 0 else py_len features) (\<lambda>n.
     if n = 0 then Inl (ValueError ''No features generated'')
     else
     and_then (py_iter features) (\<lambda>items.
     and_then (each (render_feature pystr) items) (\<lambda>parts.
     and_then (each (feature_choice pystr) items) (\<lambda>features_choices.
     Inr (''## Generated Features'' @ [CHR 0x0A, CHR 0x0A] @ concat parts,
          features, features_choices)))))))"

definition parse_features ::
  "(string \<Rightarrow> json outcome) \<Rightarrow> (json \<Rightarrow> string) \<Rightarrow> string
     \<Rightarrow> display \<times> status \<times> json \<times> string list" where
  "parse_features loads pystr response =
     (case parse_features_try loads pystr response of
        Inr (output, features, features_choices) \<Rightarrow>
          (Rendered output, Generation_complete, features, features_choices)
      | Inl e \<Rightarrow> (Parse_failed e (raw_preview response), Error e, JArr [], []))"

definition render_test_point :: "(json \<Rightarrow> string) \<Rightarrow> json \<Rightarrow> exn + string" where
  "render_test_point pystr test_point =
     and_then (field pystr test_point ''id'' ''?'') (\<lambda>a.
     and_then (field pystr test_point ''name'' ''Unknown'') (\<lambda>b.
     and_then (field pystr test_point ''type'' ''Unspecified'') (\<lambda>c.
     and_then (field pystr test_point ''priority'' ''Unspecified'') (\<lambda>d.
     and_then (field pystr test_point ''description'' ''No description'') (\<lambda>e.
     and_then (field pystr test_point ''precondition'' ''None'') (\<lambda>f.
     and_then (field pystr test_point ''expected_result'' ''None'') (\<lambda>g.
     Inr (''#### '' @ a @ ''. '' @ b @ [CHR 0x0A] @
          ''- **Type**: '' @ c @ [CHR 0x0A] @
          ''- **Priority**: '' @ d @ [CHR 0x0A] @
          ''- **Description**: '' @ e @ [CHR 0x0A] @
          ''- **Precondition**: '' @ f @ [CHR 0x0A] @
          ''- **Expected Result**: '' @ g @ [CHR 0x0A, CHR 0x0A]))))))))"

definition parse_test_points_try ::
  "(string \<Rightarrow> json outcome) \<Rightarrow> (json \<Rightarrow> string) \<Rightarrow> json \<Rightarrow> string \<Rightarrow> exn + (string \<times> json)" where
  \<comment> \<open>the \<^verbatim>\<open>try\<close> block of \<^verbatim>\<open>parse_test_points\<close>\<close>
  "parse_test_points_try loads pystr feature response =
     and_then (robust_json_parse loads response) (\<lambda>result.
     if \<not> is_JObj result \<or> \<not> has_key result ''test_points''
     then Inl (ValueError ''Parse error: missing 'test_points' field'')
     else
     and_then (py_get result ''test_points'' (JArr [])) (\<lambda>test_points.
     if \<not> py_truthy test_points then Inl (ValueError ''No test points generated'')
     else
     and_then (py_getitem feature ''name'') (\<lambda>name.
     and_then (py_iter test_points) (\<lambda>items.
     and_then (each (render_test_point pystr) items) (\<lambda>parts.
     Inr (''## Feature: '' @ pystr name @ [CHR 0x0A, CHR 0x0A] @
          ''### Test Points'' @ [CHR 0x0A, CHR 0x0A] @ concat parts,
          test_points))))))"

definition parse_test_points ::
  "(string \<Rightarrow> json outcome) \<Rightarrow> (json \<Rightarrow> string) \<Rightarrow> json \<Rightarrow> string
     \<Rightarrow> display \<times> status \<times> json" where
  "parse_test_points loads pystr feature response =
     (case parse_test_points_try loads pystr feature response of
        Inr (output, test_points) \<Rightarrow> (Rendered output, Generation_complete, test_points)
      | Inl e \<Rightarrow> (Parse_failed e (raw_preview response), Error e, JArr []))"

definition render_step :: "(json \<Rightarrow> string) \<Rightarrow> json \<Rightarrow> exn + string" where
  "render_step pystr step =
     and_then (field pystr step ''step'' ''?'') (\<lambda>a.
     and_then (field pystr step ''action'' ''No action'') (\<lambda>b.
     and_then (field pystr step ''expected'' ''None'') (\<lambda>c.
     Inr (''  '' @ a @ ''. '' @ b @ [CHR 0x0A] @ ''     - Expected: '' @ c @ [CHR 0x0A]))))"

definition render_test_case :: "(json \<Rightarrow> string) \<Rightarrow> json \<Rightarrow> exn + string" where
  "render_test_case pystr tc =
     and_then (field pystr tc ''case_id'' ''?'') (\<lambda>a.
     and_then (field pystr tc ''title'' ''Unknown'') (\<lambda>b.
     and_then (field pystr tc ''priority'' ''Unspecified'') (\<lambda>c.
     and_then (field pystr tc ''precondition'' ''None'') (\<lambda>d.
     and_then (py_get tc ''test_steps'' (JArr [])) (\<lambda>test_steps.
     and_then (if py_truthy test_steps
               then and_then (py_iter test_steps) (\<lambda>steps.
                    and_then (each (render_step pystr) steps) (\<lambda>ps. Inr (concat ps)))
               else Inr (''  (No test steps)'' @ [CHR 0x0A])) (\<lambda>steps_text.
     and_then (field pystr tc ''test_data'' ''None'') (\<lambda>e.
     and_then (field pystr tc ''expected_result'' ''None'') (\<lambda>f.
     and_then (field pystr tc ''postcondition'' ''None'') (\<lambda>g.
     Inr (''#### '' @ a @ '': '' @ b @ [CHR 0x0A] @
          ''- **Priority**: '' @ c @ [CHR 0x0A] @
          ''- **Precondition**: '' @ d @ [CHR 0x0A] @
          ''- **Test Steps**:'' @ [CHR 0x0A] @ steps_text @
          ''- **Test Data**: '' @ e @ [CHR 0x0A] @
          ''- **Expected Result**: '' @ f @ [CHR 0x0A] @
          ''- **Postcondition**: '' @ g @ [CHR 0x0A, CHR 0x0A]))))))))))"

definition parse_test_cases_try ::
  "(string \<Rightarrow> json outcome) \<Rightarrow> (json \<Rightarrow> string) \<Rightarrow> string \<Rightarrow> json \<Rightarrow> json
     \<Rightarrow> exn + (string \<times> json)" where
  \<comment> \<open>the \<^verbatim>\<open>try\<close> block of \<^verbatim>\<open>parse_test_cases\<close>\<close>
  "parse_test_cases_try loads pystr response feature test_point =
     and_then (robust_json_parse loads response) (\<lambda>result.
     if \<not> is_JObj result \<or> \<not> has_key result ''test_cases''
     then Inl (ValueError ''Parse error: missing 'test_cases' field'')
     else
     and_then (py_get result ''test_cases'' (JArr [])) (\<lambda>test_cases.
     if \<not> py_truthy test_cases then Inl (ValueError ''No test cases generated'')
     else
     and_then (py_getitem feature ''name'') (\<lambda>fname.
     and_then (py_getitem test_point ''name'') (\<lambda>tname.
     and_then (py_iter test_cases) (\<lambda>items.
     and_then (each (render_test_case pystr) items) (\<lambda>parts.
     Inr (''## Feature: '' @ pystr fname @ [CHR 0x0A] @
          ''### Test Point: '' @ pystr tname @ [CHR 0x0A, CHR 0x0A] @
          ''### Test Cases'' @ [CHR 0x0A, CHR 0x0A] @ concat parts,
          test_cases)))))))"

definition parse_test_cases ::
  "(string \<Rightarrow> json outcome) \<Rightarrow> (json \<Rightarrow> string) \<Rightarrow> string \<Rightarrow> json \<Rightarrow> json
     \<Rightarrow> display \<times> status \<times> json" where
  "parse_test_cases loads pystr response feature test_point =
     (case parse_test_cases_try loads pystr response feature test_point of
        Inr (output, test_cases) \<Rightarrow> (Rendered output, Generation_complete, test_cases)
      | Inl e \<Rightarrow> (Parse_failed e (raw_preview response), Error e, JArr []))"


subsection \<open>The adapters of \<^verbatim>\<open>api.py\<close>\<close>

text \<open>
  The three endpoints share one shape; \<open>records\<close> stands for the field \<^verbatim>\<open>features\<close>,
  \<^verbatim>\<open>test_points\<close> or \<^verbatim>\<open>test_cases\<close> of the response model, declared \<^verbatim>\<open>List[dict]\<close>,
  and \<open>error\<close> holds the exception whose \<^verbatim>\<open>str\<close> the source stores. What the source
  does before it parses (loading the templates, formatting the prompt, calling the model)
  is the parameter \<open>reply\<close>: the reply text, or the exception raised on the way. The
  global \<^verbatim>\<open>vllm_client\<close> is the flag \<open>client\<close>.
\<close>

record stage_response =
  success :: bool
  records :: "json list"
  raw_response :: "string option"
  error :: "exn option"

definition validate_records :: "json \<Rightarrow> exn + json list" where
  \<comment> \<open>the validation of a \<^verbatim>\<open>List[dict]\<close> field: a list whose items are all dicts\<close>
  "validate_records v =
     (case v of JArr xs \<Rightarrow> if list_all is_JObj xs then Inr xs else Inl ValidationError
              | _ \<Rightarrow> Inl ValidationError)"

definition validate_dict :: "json \<Rightarrow> exn + json" where
  \<comment> \<open>the validation of a \<^verbatim>\<open>dict\<close> field of a request model\<close>
  "validate_dict v = (if is_JObj v then Inr v else Inl ValidationError)"

definition not_initialized :: exn where
  "not_initialized = HTTPException 400 ''Model not initialized. Call /api/init first.''"

definition stage_try :: "string \<Rightarrow> (string \<Rightarrow> json outcome) \<Rightarrow> exn + string \<Rightarrow> stage_response" where
  \<comment> \<open>the \<^verbatim>\<open>try\<close> block of an endpoint with its \<^verbatim>\<open>except Exception\<close>, for the key \<open>k\<close>\<close>
  "stage_try k loads reply =
     (case and_then reply (\<lambda>response.
           and_then (robust_json_parse loads response) (\<lambda>result.
           and_then (py_get result k (JArr [])) (\<lambda>items.
           and_then (validate_records items) (\<lambda>rs. Inr (rs, response))))) of
        Inr (rs, response) \<Rightarrow>
          \<lparr>success = True, records = rs, raw_response = Some response, error = None\<rparr>
      | Inl e \<Rightarrow>
          \<lparr>success = False, records = [], raw_response = None, error = Some e\<rparr>)"

definition stage_endpoint ::
  "string \<Rightarrow> (string \<Rightarrow> json outcome) \<Rightarrow> bool \<Rightarrow> exn + string \<Rightarrow> exn + stage_response" where
  \<comment> \<open>the common body of the three endpoints: the check of the client, then the \<^verbatim>\<open>try\<close> block\<close>
  "stage_endpoint k loads client reply =
     (if \<not> client then Inl not_initialized else Inr (stage_try k loads reply))"

definition extract_features ::
  "(string \<Rightarrow> json outcome) \<Rightarrow> bool \<Rightarrow> exn + string \<Rightarrow> exn + stage_response" where
  "extract_features = stage_endpoint ''features''"

definition generate_test_points ::
  "(string \<Rightarrow> json outcome) \<Rightarrow> bool \<Rightarrow> exn + string \<Rightarrow> exn + stage_response" where
  "generate_test_points = stage_endpoint ''test_points''"

definition generate_test_cases ::
  "(string \<Rightarrow> json outcome) \<Rightarrow> bool \<Rightarrow> exn + string \<Rightarrow> exn + stage_response" where
  "generate_test_cases = stage_endpoint ''test_cases''"

subsection \<open>The full pipeline\<close>

text \<open>
  \<^verbatim>\<open>run_full_pipeline\<close>. The reply of the model to each sub-call is a parameter, indexed
  by the position of the call: \<open>tp_reply i feature\<close> for the test points of the feature
  at index \<open>i\<close>, \<open>tc_reply i j feature test_point\<close> for the test cases of its test point
  at index \<open>j\<close>. The dictionaries of the response are association lists, keyed by the
  index and by the pair of indices that the source writes as \<^verbatim>\<open>str(i)\<close> and
  \<^verbatim>\<open>f"{feature_idx},{tp_idx}"\<close>.
\<close>

datatype pipeline_error =
    Failed_to_extract_features "exn option"
  | Raised exn

record pipeline_response =
  p_success :: bool
  p_features :: "json list"
  p_test_points :: "(nat \<times> json list) list"
  p_test_cases :: "((nat \<times> nat) \<times> json list) list"
  p_error :: "pipeline_error option"

fun store :: "('k \<times> 'v) list \<Rightarrow> 'k \<Rightarrow> 'v \<Rightarrow> ('k \<times> 'v) list" where
  \<comment> \<open>\<^verbatim>\<open>d[k] = v\<close> on a dict in insertion order\<close>
  "store [] k v = [(k, v)]"
| "store ((k', v') # d) k v = (if k' = k then (k, v) # d else (k', v') # store d k v)"

definition slice_to :: "int option \<Rightarrow> 'a list \<Rightarrow> 'a list" where
  \<comment> \<open>\<^verbatim>\<open>if n: xs = xs[:n]\<close>, for an optional int: a negative bound counts from the end\<close>
  "slice_to n xs =
     (case n of
        None \<Rightarrow> xs
      | Some k \<Rightarrow> if k = 0 then xs
                  else if k > 0 then take (nat k) xs
                  else take (length xs - nat (- k)) xs)"

fun test_points_loop ::
  "(string \<Rightarrow> json outcome) \<Rightarrow> bool \<Rightarrow> int option \<Rightarrow> (nat \<Rightarrow> json \<Rightarrow> exn + string)
     \<Rightarrow> (nat \<times> json) list \<Rightarrow> (nat \<times> json list) list \<Rightarrow> exn + (nat \<times> json list) list" where
  \<comment> \<open>step 2: \<^verbatim>\<open>for i, feature in enumerate(features)\<close>\<close>
  "test_points_loop loads client cap tp_reply [] all_test_points = Inr all_test_points"
| "test_points_loop loads client cap tp_reply ((i, feature) # rest) all_test_points =
     and_then (validate_dict feature) (\<lambda>feature.
     and_then (generate_test_points loads client (tp_reply i feature)) (\<lambda>tp_response.
     test_points_loop loads client cap tp_reply rest
       (if success tp_response
        then store all_test_points i (slice_to cap (records tp_response))
        else all_test_points)))"

fun test_cases_inner ::
  "(string \<Rightarrow> json outcome) \<Rightarrow> bool \<Rightarrow> (nat \<Rightarrow> json \<Rightarrow> exn + string) \<Rightarrow> nat
     \<Rightarrow> (nat \<times> json) list \<Rightarrow> ((nat \<times> nat) \<times> json list) list
     \<Rightarrow> exn + ((nat \<times> nat) \<times> json list) list" where
  \<comment> \<open>step 3, inner loop: \<^verbatim>\<open>for tp_idx, test_point in enumerate(test_points)\<close>\<close>
  "test_cases_inner loads client reply feature_idx [] all_test_cases = Inr all_test_cases"
| "test_cases_inner loads client reply feature_idx ((tp_idx, test_point) # rest) all_test_cases =
     and_then (validate_dict test_point) (\<lambda>test_point.
     and_then (generate_test_cases loads client (reply tp_idx test_point)) (\<lambda>tc_response.
     test_cases_inner loads client reply feature_idx rest
       (if success tc_response
        then store all_test_cases (feature_idx, tp_idx) (records tc_response)
        else all_test_cases)))"

fun test_cases_loop ::
  "(string \<Rightarrow> json outcome) \<Rightarrow> bool \<Rightarrow> (nat \<Rightarrow> nat \<Rightarrow> json \<Rightarrow> json \<Rightarrow> exn + string)
     \<Rightarrow> json list \<Rightarrow> (nat \<times> json list) list \<Rightarrow> ((nat \<times> nat) \<times> json list) list
     \<Rightarrow> exn + ((nat \<times> nat) \<times> json list) list" where
  \<comment> \<open>step 3, outer loop: \<^verbatim>\<open>for feature_idx, test_points in all_test_points.items()\<close>\<close>
  "test_cases_loop loads client tc_reply features [] all_test_cases = Inr all_test_cases"
| "test_cases_loop loads client tc_reply features ((feature_idx, test_points) # rest) all_test_cases =
     (if feature_idx \<ge> length features then Inl IndexError
      else
        and_then (validate_dict (features ! feature_idx)) (\<lambda>feature.
        and_then (test_cases_inner loads client (\<lambda>j. tc_reply feature_idx j feature) feature_idx
                    (enumerate 0 test_points) all_test_cases) (\<lambda>all_test_cases.
        test_cases_loop loads client tc_reply features rest all_test_cases)))"

definition run_full_pipeline ::
  "(string \<Rightarrow> json outcome) \<Rightarrow> bool \<Rightarrow> int option \<Rightarrow> int option \<Rightarrow> exn + string
     \<Rightarrow> (nat \<Rightarrow> json \<Rightarrow> exn + string) \<Rightarrow> (nat \<Rightarrow> nat \<Rightarrow> json \<Rightarrow> json \<Rightarrow> exn + string)
     \<Rightarrow> exn + pipeline_response" where
  "run_full_pipeline loads client max_features max_test_points_per_feature
       features_reply tp_reply tc_reply =
     (if \<not> client then Inl not_initialized
      else Inr
        (case and_then (extract_features loads client features_reply) (\<lambda>features_response.
              if \<not> success features_response
              then Inr \<lparr>p_success = False, p_features = [], p_test_points = [], p_test_cases = [],
                        p_error = Some (Failed_to_extract_features (error features_response))\<rparr>
              else
                (let features = slice_to max_features (records features_response)
                 in and_then (test_points_loop loads client max_test_points_per_feature tp_reply
                                (enumerate 0 features) []) (\<lambda>all_test_points.
                    and_then (test_cases_loop loads client tc_reply features all_test_points [])
                      (\<lambda>all_test_cases.
                    Inr \<lparr>p_success = True, p_features = features,
                         p_test_points = all_test_points, p_test_cases = all_test_cases,
                         p_error = None\<rparr>)))) of
           Inr response \<Rightarrow> response
         | Inl e \<Rightarrow>
             \<lparr>p_success = False, p_features = [], p_test_points = [], p_test_cases = [],
              p_error = Some (Raised e)\<rparr>))"

section \<open>Streaming\<close>

text \<open>
  \<^verbatim>\<open>generate_response_vllm_stream\<close>: the chunks of the model are the list of their
  \<^verbatim>\<open>delta.content\<close>, \<open>None\<close> where a chunk carries no content; the generator yields
  the accumulated content after every chunk that carries some.
\<close>

fun stream_from :: "string \<Rightarrow> string option list \<Rightarrow> string list" where
  "stream_from content [] = []"
| "stream_from content (None # chunks) = stream_from content chunks"
| "stream_from content (Some chunk_content # chunks) =
     (content @ chunk_content) # stream_from (content @ chunk_content) chunks"

definition generate_response_vllm_stream :: "string option list \<Rightarrow> string list" where
  "generate_response_vllm_stream chunks = stream_from [] chunks"

text \<open>
  \<^verbatim>\<open>generate_features_for_gradio_stream\<close>, as the trace of what the generator does once
  the prompt is built: it surfaces every snapshot it receives, then hands the last one
  (the empty text when there was none) to \<^verbatim>\<open>parse_features\<close>, and yields the result.
\<close>

datatype event =
    Warned
  | Surfaced string
  | Parsed string "display \<times> status \<times> json \<times> string list"

fun consume :: "string \<Rightarrow> string list \<Rightarrow> event list \<times> string" where
  \<comment> \<open>the \<^verbatim>\<open>for\<close> loop over the snapshots: the events, and \<^verbatim>\<open>response_text\<close> at its end\<close>
  "consume response_text [] = ([], response_text)"
| "consume response_text (partial_response # rest) =
     (let (events, final) = consume partial_response rest
      in (Surfaced partial_response # events, final))"

definition generate_features_for_gradio_stream ::
  "(string \<Rightarrow> json outcome) \<Rightarrow> (json \<Rightarrow> string) \<Rightarrow> string \<Rightarrow> string option list \<Rightarrow> event list" where
  "generate_features_for_gradio_stream loads pystr prd_text chunks =
     (if prd_text = [] \<or> strip prd_text = [] then [Warned]
      else (let (events, response_text) = consume [] (generate_response_vllm_stream chunks)
            in events @ [Parsed response_text (parse_features loads pystr response_text)]))"


definition chunk_text :: "string option \<Rightarrow> string" where
  \<comment> \<open>the content a chunk adds to the reply\<close>
  "chunk_text c = (case c of None \<Rightarrow> [] | Some x \<Rightarrow> x)"


definition delim :: "char \<Rightarrow> bool" where
  \<comment> \<open>what may follow a value inside an array or an object\<close>
  "delim c = (json_ws c \<or> c = CHR '','' \<or> c = CHR '']'' \<or> c = CHR ''}'')"

definition line_prefix :: "string \<Rightarrow> nat \<Rightarrow> string" where
  \<comment> \<open>the first \<open>i\<close> lines of a text, joined again: \<^verbatim>\<open>'\n'.join(lines[:i])\<close>\<close>
  "line_prefix s i = join_lines (take i (split_lines s))"


section \<open>Facts about the text primitives\<close>

lemma strip_eq_Nil_iff: "strip s = [] \<longleftrightarrow> (\<forall>c \<in> set s. py_isspace c)"
proof
  assume "strip s = []"
  then have "\<forall>c \<in> set (dropWhile py_isspace s). py_isspace c"
    by (simp add: strip_def rstrip_def lstrip_def)
  then have "dropWhile py_isspace s = []"
    by (metis hd_dropWhile list.set_sel(1))
  then show "\<forall>c \<in> set s. py_isspace c"
    by simp
next
  assume "\<forall>c \<in> set s. py_isspace c"
  then show "strip s = []"
    by (auto simp: strip_def rstrip_def lstrip_def dest: set_dropWhileD)
qed

lemma find_char_append: "x \<notin> set pre \<Longrightarrow> find_char x (pre @ x # post) = int (length pre)"
  by (induction pre) (auto simp: Let_def)

lemma find_char_none: "x \<notin> set s \<Longrightarrow> find_char x s = -1"
  by (induction s) (auto simp: Let_def)

lemma find_char_ge: "- 1 \<le> find_char x s"
  by (induction s) (auto simp: Let_def)

lemma find_char_found: "x \<in> set s \<Longrightarrow> 0 \<le> find_char x s"
proof (induction s)
  case Nil
  then show ?case by simp
next
  case (Cons c cs)
  then show ?case
    using find_char_ge [of x cs] by (auto simp: Let_def)
qed

lemma rfind_char_append: "x \<notin> set post \<Longrightarrow> rfind_char x (pre @ x # post) = int (length pre)"
  using find_char_append [of x "rev post" "rev pre"]
  by (simp add: rfind_char_def Let_def)

lemma rfind_char_none: "x \<notin> set s \<Longrightarrow> rfind_char x s = -1"
  by (simp add: rfind_char_def find_char_none)

lemma slice_middle:
  "slice (pre @ mid @ post) (int (length pre)) (int (length pre + length mid)) = mid"
  by (simp add: slice_def)

lemma hd_slice_find:
  assumes "find_char x s \<noteq> -1" and "find_char x s < j"
  shows "slice s (find_char x s) (j + 1) \<noteq> [] \<and> hd (slice s (find_char x s) (j + 1)) = x"
proof -
  from assms(1) have "x \<in> set s"
    using find_char_none by blast
  then obtain pre post where s: "s = pre @ x # post" and "x \<notin> set pre"
    by (meson split_list_first)
  then have f: "find_char x s = int (length pre)"
    by (simp add: find_char_append)
  with assms(2) have "nat (j + 1) - length pre > 0"
    by simp
  then obtain k where k: "nat (j + 1) - length pre = Suc k"
    by (auto simp: gr0_conv_Suc)
  have "slice (pre @ x # post) (int (length pre)) (j + 1) = x # take k post"
    using k by (simp add: slice_def)
  then show ?thesis
    using f by (simp add: s)
qed

lemma strip_line_comments_hd:
  "c \<noteq> CHR ''/'' \<Longrightarrow> strip_line_comments (c # cs) = c # strip_line_comments cs"
  by simp

lemma strip_block_comments_hd:
  "c \<noteq> CHR ''/'' \<Longrightarrow> strip_block_comments (c # cs) = c # strip_block_comments cs"
  by simp

lemma repair_hd:
  "c \<noteq> CHR ''/'' \<Longrightarrow> c \<noteq> CHR '','' \<Longrightarrow> \<exists>t. repair (c # cs) = c # t"
  by (simp add: repair_def)

lemma split_lines_hd:
  "c \<noteq> CHR 0x0A \<Longrightarrow> \<exists>l ls. split_lines (c # cs) = (c # l) # ls"
  by (cases "split_lines cs") auto

lemma join_take_hd:
  "\<exists>t. join_lines (take (Suc i) ((c # l) # ls)) = c # t"
  by (cases "take i ls") auto

lemma shrink_lines_hd:
  assumes "\<And>s v. loads s = Decoded v \<Longrightarrow> s \<noteq> [] \<Longrightarrow> hd s = c \<Longrightarrow> P v"
  shows "shrink_lines loads ((c # l) # ls) i = Decoded v \<Longrightarrow> P v"
proof (induction i)
  case 0
  then show ?case by simp
next
  case (Suc i)
  obtain t where t: "join_lines (take (Suc i) ((c # l) # ls)) = c # t"
    using join_take_hd by blast
  from Suc show ?case
    using assms [of "c # t" v] unfolding shrink_lines.simps Let_def t
    by (auto split: if_splits outcome.splits)
qed

section \<open>Failure modes of the parser\<close>

lemma first_parse_Raises:
  "first_parse loads ms = Raises e \<Longrightarrow> \<exists>s. loads s = Raises e"
  by (induction ms) (auto split: outcome.splits)

lemma first_parse_plain_Raises:
  "first_parse_plain loads ms = Raises e \<Longrightarrow> \<exists>s. loads s = Raises e"
  by (induction ms) (auto simp: Let_def split: outcome.splits if_splits)

lemma shrink_lines_Raises:
  "shrink_lines loads ls i = Raises e \<Longrightarrow> \<exists>s. loads s = Raises e"
  by (induction i) (auto simp: Let_def split: outcome.splits if_splits)

lemma brace_strategies_Raises:
  "brace_strategies loads s = Raises e \<Longrightarrow> \<exists>s. loads s = Raises e"
  by (auto simp: brace_strategies_def Let_def split: outcome.splits if_splits
      dest: shrink_lines_Raises)

lemma bracket_strategy_Raises:
  "bracket_strategy loads s = Raises e \<Longrightarrow> \<exists>s. loads s = Raises e"
  by (auto simp: bracket_strategy_def Let_def split: if_splits)

lemma robust_json_parse_cases:
  "(text = [] \<or> strip text = []) \<and> robust_json_parse loads text = Inl (ValueError empty_input_msg) \<or>
   \<not> (text = [] \<or> strip text = []) \<and>
     ((\<exists>v. robust_json_parse loads text = Inr v) \<or>
      robust_json_parse loads text = Inl (JSONDecodeError (no_json_msg text) text 0) \<or>
      (\<exists>e s. robust_json_parse loads text = Inl e \<and> loads s = Raises e))"
proof (cases "text = [] \<or> strip text = []")
  case True
  then show ?thesis
    by (simp add: robust_json_parse_def)
next
  case False
  have fp: "\<And>e. first_parse loads (findall_fenced True text) = Raises e \<Longrightarrow> \<exists>s. loads s = Raises e"
    by (rule first_parse_Raises)
  have fpp: "\<And>e. first_parse_plain loads (findall_fenced False text) = Raises e \<Longrightarrow> \<exists>s. loads s = Raises e"
    by (rule first_parse_plain_Raises)
  have bs: "\<And>e. brace_strategies loads text = Raises e \<Longrightarrow> \<exists>s. loads s = Raises e"
    by (rule brace_strategies_Raises)
  have bk: "\<And>e. bracket_strategy loads text = Raises e \<Longrightarrow> \<exists>s. loads s = Raises e"
    by (rule bracket_strategy_Raises)
  from False fp fpp bs bk show ?thesis
    by (auto simp: robust_json_parse_def split: outcome.splits)
qed

lemma no_backtick_no_fence: "CHR 0x60 \<notin> set s \<Longrightarrow> find_sub fence s = None"
  by (induction s) (auto simp: fence_def)

lemma no_backtick_no_block: "CHR 0x60 \<notin> set s \<Longrightarrow> findall_fenced tagged s = []"
  by (induction s) (simp_all add: fence_def Let_def)

text \<open>
  C7. An empty or whitespace-only text fails at once with the empty-input error, whatever
  the decoder is and does (no strategy consults it), and that error is told apart from
  the extraction failure: the first is a plain \<^verbatim>\<open>ValueError\<close>; the second, raised
  on a text that is not blank once every strategy has fallen through, is a
  \<^verbatim>\<open>JSONDecodeError\<close>. On a text that is not blank any other exception is one that the
  decoder raised and no clause of the parser caught.
\<close>

theorem empty_input_fails_fast:
  "(text = [] \<or> (\<forall>c \<in> set text. py_isspace c) \<longrightarrow>
      robust_json_parse loads text = Inl (ValueError empty_input_msg) \<and>
      \<not> isinstance_JSONDecodeError (ValueError empty_input_msg)) \<and>
   (\<not> (text = [] \<or> (\<forall>c \<in> set text. py_isspace c)) \<longrightarrow>
      (first_parse loads (findall_fenced True text) = Invalid \<and>
       first_parse_plain loads (findall_fenced False text) = Invalid \<and>
       brace_strategies loads text = Invalid \<and>
       bracket_strategy loads text = Invalid \<longrightarrow>
         robust_json_parse loads text = Inl (JSONDecodeError (no_json_msg text) text 0) \<and>
         isinstance_JSONDecodeError (JSONDecodeError (no_json_msg text) text 0)) \<and>
      (robust_json_parse loads text = Inl e \<longrightarrow>
         e = JSONDecodeError (no_json_msg text) text 0 \<or> (\<exists>s. loads s = Raises e)))"
proof -
  have blank: "(text = [] \<or> (\<forall>c \<in> set text. py_isspace c)) = (text = [] \<or> strip text = [])"
    by (simp add: strip_eq_Nil_iff)
  have a: "text = [] \<or> strip text = [] \<Longrightarrow>
      robust_json_parse loads text = Inl (ValueError empty_input_msg)"
    by (simp add: robust_json_parse_def)
  have b: "\<not> (text = [] \<or> strip text = []) \<Longrightarrow>
      first_parse loads (findall_fenced True text) = Invalid \<Longrightarrow>
      first_parse_plain loads (findall_fenced False text) = Invalid \<Longrightarrow>
      brace_strategies loads text = Invalid \<Longrightarrow>
      bracket_strategy loads text = Invalid \<Longrightarrow>
      robust_json_parse loads text = Inl (JSONDecodeError (no_json_msg text) text 0)"
    by (simp add: robust_json_parse_def)
  have c: "\<not> (text = [] \<or> strip text = []) \<Longrightarrow> robust_json_parse loads text = Inl e \<Longrightarrow>
      e = JSONDecodeError (no_json_msg text) text 0 \<or> (\<exists>s. loads s = Raises e)"
    using robust_json_parse_cases [of "text" loads] by auto
  from a b c show ?thesis
    unfolding blank by simp
qed

theorem empty_input_fails_fast_witness:
  "robust_json_parse (\<lambda>s. Raises RecursionError :: unit outcome) ''   ''
     = Inl (ValueError empty_input_msg) \<and>
   robust_json_parse (\<lambda>s. Invalid :: unit outcome) ''not json at all''
     = Inl (JSONDecodeError (no_json_msg ''not json at all'') ''not json at all'' 0) \<and>
   isinstance_JSONDecodeError
     (JSONDecodeError (no_json_msg ''not json at all'') ''not json at all'' 0) \<and>
   \<not> isinstance_JSONDecodeError (ValueError empty_input_msg)"
proof -
  let ?l = "\<lambda>s. Invalid :: unit outcome"
  let ?t = "''not json at all''"
  have ws: "\<forall>c \<in> set ''   ''. py_isspace c"
    by (simp add: py_isspace_def)
  have nws: "\<not> (?t = [] \<or> (\<forall>c \<in> set ?t. py_isspace c))"
    by (simp add: py_isspace_def)
  have nb: "findall_fenced tagged ?t = []" for tagged
    by (rule no_backtick_no_block) simp
  have s1: "first_parse ?l (findall_fenced True ?t) = Invalid"
    by (simp only: nb first_parse.simps)
  have s2: "first_parse_plain ?l (findall_fenced False ?t) = Invalid"
    by (simp only: nb first_parse_plain.simps)
  have s3: "brace_strategies ?l ?t = Invalid"
    by (simp add: brace_strategies_def)
  have s4: "bracket_strategy ?l ?t = Invalid"
    by (simp add: bracket_strategy_def)
  from empty_input_fails_fast [of "''   ''" "\<lambda>s. Raises RecursionError :: unit outcome"] ws
  have a: "robust_json_parse (\<lambda>s. Raises RecursionError :: unit outcome) ''   ''
      = Inl (ValueError empty_input_msg) \<and>
    \<not> isinstance_JSONDecodeError (ValueError empty_input_msg)"
    by blast
  from empty_input_fails_fast [of ?t ?l] nws s1 s2 s3 s4
  have b: "robust_json_parse ?l ?t = Inl (JSONDecodeError (no_json_msg ?t) ?t 0) \<and>
    isinstance_JSONDecodeError (JSONDecodeError (no_json_msg ?t) ?t 0)"
    by blast
  from a b show ?thesis by blast
qed






section \<open>Facts about the strict decoder\<close>

lemma object_loop_is_JObj: "object_loop n s acc = Some (v, r) \<Longrightarrow> is_JObj v"
proof (induction n arbitrary: s acc)
  case 0
  then show ?case by simp
next
  case (Suc n)
  from Suc.prems Suc.IH show ?case
    by (auto simp: Let_def split: option.splits list.splits if_splits)
qed

lemma array_loop_is_JArr: "array_loop n s acc = Some (v, r) \<Longrightarrow> is_JArr v"
proof (induction n arbitrary: s acc)
  case 0
  then show ?case by simp
next
  case (Suc n)
  from Suc.prems Suc.IH show ?case
    by (auto simp: Let_def split: option.splits list.splits if_splits)
qed

lemma skip_ws_Cons: "\<not> json_ws c \<Longrightarrow> skip_ws (c # cs) = c # cs"
  by (simp add: skip_ws_def)

lemma scan_once_opens:
  assumes "scan_once n s = Some (v, r)"
  shows "s \<noteq> [] \<and> (hd s = CHR ''{'' \<longrightarrow> is_JObj v) \<and> (hd s = CHR ''['' \<longrightarrow> is_JArr v)"
proof (cases n)
  case 0
  with assms show ?thesis by simp
next
  case (Suc k)
  show ?thesis
  proof (cases s)
    case Nil
    with assms Suc show ?thesis by simp
  next
    case (Cons c cs)
    have "is_JObj v" if "c = CHR ''{''"
      using assms that unfolding Suc Cons
      by (auto split: option.splits list.splits if_splits dest: object_loop_is_JObj)
    moreover have "is_JArr v" if "c = CHR ''[''"
      using assms that unfolding Suc Cons
      by (auto split: option.splits list.splits if_splits dest: array_loop_is_JArr)
    ultimately show ?thesis by (simp add: Cons)
  qed
qed

lemma strip_ws_hd:
  assumes "s \<noteq> []" and "\<not> json_ws (hd s)"
  shows "strip_ws s \<noteq> [] \<and> hd (strip_ws s) = hd s"
proof -
  from assms obtain c cs where s: "s = c # cs" and c: "\<not> json_ws c"
    by (cases s) auto
  have "skip_ws (rev cs @ [c]) = skip_ws (rev cs) @ [c]"
    using c by (simp add: skip_ws_def dropWhile_append3)
  then have "\<exists>t. rev (skip_ws (rev cs @ [c])) = c # t"
    by simp
  then show ?thesis
    using c by (auto simp: strip_ws_def s skip_ws_Cons)
qed

lemma json_loads_opens:
  assumes "json_loads s = Some v"
  shows "s \<noteq> [] \<and> (hd s = CHR ''{'' \<longrightarrow> is_JObj v) \<and> (hd s = CHR ''['' \<longrightarrow> is_JArr v)"
proof -
  from assms have sc: "scan_once (2 * length (strip_ws s) + 2) (strip_ws s) = Some (v, [])"
    by (auto simp: json_loads_def Let_def split: option.splits if_splits)
  then have ne: "strip_ws s \<noteq> []"
    using scan_once_opens by blast
  then have "s \<noteq> []"
    by (auto simp: strip_ws_def skip_ws_def)
  moreover have "is_JObj v" if "hd s = CHR ''{''"
    using that scan_once_opens [OF sc] strip_ws_hd [of s] \<open>s \<noteq> []\<close>
    by (simp add: json_ws_def)
  moreover have "is_JArr v" if "hd s = CHR ''[''"
    using that scan_once_opens [OF sc] strip_ws_hd [of s] \<open>s \<noteq> []\<close>
    by (simp add: json_ws_def)
  ultimately show ?thesis by blast
qed


lemma py_loads_Decoded: "py_loads s = Decoded v \<Longrightarrow> json_loads s = Some v"
  by (auto simp: py_loads_def split: if_splits option.splits)

lemma py_loads_opens:
  assumes "py_loads s = Decoded v"
  shows "s \<noteq> [] \<and> (hd s = CHR ''{'' \<longrightarrow> is_JObj v) \<and> (hd s = CHR ''['' \<longrightarrow> is_JArr v)"
  using json_loads_opens [OF py_loads_Decoded [OF assms]] .


section \<open>The shape of the parser's result\<close>

lemma first_parse_plain_opens:
  assumes "\<And>s v. loads s = Decoded v \<Longrightarrow> s \<noteq> [] \<Longrightarrow> hd s = CHR ''{'' \<or> hd s = CHR ''['' \<Longrightarrow> P v"
  shows "first_parse_plain loads ms = Decoded v \<Longrightarrow> P v"
proof (induction ms)
  case Nil
  then show ?case by simp
next
  case (Cons m ms)
  then show ?case
    using assms [of "strip m" v]
    by (auto simp: Let_def split: if_splits outcome.splits)
qed

lemma brace_strategies_opens:
  assumes dec: "\<And>s v. loads s = Decoded v \<Longrightarrow> s \<noteq> [] \<Longrightarrow> hd s = CHR ''{'' \<Longrightarrow> P v"
    and res: "brace_strategies loads text = Decoded v"
  shows "P v"
proof -
  let ?f = "find_char CHR ''{'' text" and ?l = "rfind_char CHR ''}'' text"
  from res have guard: "?f \<noteq> -1" "?f < ?l"
    by (auto simp: brace_strategies_def Let_def split: if_splits)
  then obtain t where t: "slice text ?f (?l + 1) = CHR ''{'' # t"
    using hd_slice_find [of "CHR ''{''" "text" "?l"] by (cases "slice text ?f (?l + 1)") auto
  obtain t' where t': "repair (CHR ''{'' # t) = CHR ''{'' # t'"
    using repair_hd [of "CHR ''{''" t] by auto
  obtain l ls where ls: "split_lines (CHR ''{'' # t') = (CHR ''{'' # l) # ls"
    using split_lines_hd [of "CHR ''{''" t'] by auto
  from res guard consider
      "loads (CHR ''{'' # t) = Decoded v"
    | "loads (CHR ''{'' # t') = Decoded v"
    | "shrink_lines loads ((CHR ''{'' # l) # ls) (length ((CHR ''{'' # l) # ls)) = Decoded v"
    unfolding brace_strategies_def Let_def t t' ls
    by (auto split: if_splits outcome.splits)
  then show ?thesis
  proof cases
    case 1
    then show ?thesis using dec [of "CHR ''{'' # t" v] by simp
  next
    case 2
    then show ?thesis using dec [of "CHR ''{'' # t'" v] by simp
  next
    case 3
    then show ?thesis using shrink_lines_hd [of loads "CHR ''{''" P] dec by blast
  qed
qed

lemma bracket_strategy_opens:
  assumes dec: "\<And>s v. loads s = Decoded v \<Longrightarrow> s \<noteq> [] \<Longrightarrow> hd s = CHR ''['' \<Longrightarrow> P v"
    and res: "bracket_strategy loads text = Decoded v"
  shows "P v"
proof -
  let ?f = "find_char CHR ''['' text" and ?l = "rfind_char CHR '']'' text"
  from res have guard: "?f \<noteq> -1" "?f < ?l"
    by (auto simp: bracket_strategy_def Let_def split: if_splits)
  then have "slice text ?f (?l + 1) \<noteq> [] \<and> hd (slice text ?f (?l + 1)) = CHR ''[''"
    using hd_slice_find [of "CHR ''[''" "text" "?l"] by simp
  moreover from res guard have "loads (slice text ?f (?l + 1)) = Decoded v"
    by (auto simp: bracket_strategy_def Let_def split: if_splits)
  ultimately show ?thesis using dec by blast
qed

text \<open>
  C3 (as amended). The claim that the result is never a scalar fails on a tagged block
  whose content is a scalar: strategy 1 returns whatever the decoder gives. What holds:
  when no \<^verbatim>\<open>```json\<close> block of the text decodes, a result of the parser is a mapping
  or an array, for every decoder that gives a mapping on a text that begins with a brace
  and an array on a text that begins with a bracket.
\<close>

theorem result_is_container_unless_tagged_block:
  assumes dec: "\<forall>s v. loads s = Decoded v \<and> s \<noteq> [] \<longrightarrow>
                 (hd s = CHR ''{'' \<longrightarrow> is_JObj v) \<and> (hd s = CHR ''['' \<longrightarrow> is_JArr v)"
    and untagged: "first_parse loads (findall_fenced True text) = Invalid"
    and res: "robust_json_parse loads text = Inr v"
  shows "is_JObj v \<or> is_JArr v"
proof -
  from res untagged consider
      "first_parse_plain loads (findall_fenced False text) = Decoded v"
    | "brace_strategies loads text = Decoded v"
    | "bracket_strategy loads text = Decoded v"
    by (auto simp: robust_json_parse_def split: if_splits outcome.splits)
  then show ?thesis
  proof cases
    case 1
    then show ?thesis
      using first_parse_plain_opens [of loads "\<lambda>v. is_JObj v \<or> is_JArr v"] dec by blast
  next
    case 2
    then show ?thesis
      using brace_strategies_opens [of loads is_JObj] dec by blast
  next
    case 3
    then show ?thesis
      using bracket_strategy_opens [of loads is_JArr] dec by blast
  qed
qed

theorem result_scalar_counterexample:
  \<open>robust_json_parse py_loads ''```json\<newline>1\<newline>```'' = Inr (JInt 1) \<and>
   \<not> (is_JObj (JInt 1) \<or> is_JArr (JInt 1))\<close>
  by code_simp

theorem result_is_container_unless_tagged_block_witness:
  \<open>first_parse py_loads (findall_fenced True ''Result: [1, 2] ok'') = Invalid \<and>
   robust_json_parse py_loads ''Result: [1, 2] ok'' = Inr (JArr [JInt 1, JInt 2]) \<and>
   (is_JObj (JArr [JInt 1, JInt 2]) \<or> is_JArr (JArr [JInt 1, JInt 2]))\<close>
proof -
  have a: \<open>first_parse py_loads (findall_fenced True ''Result: [1, 2] ok'') = Invalid\<close>
    by code_simp
  have b: \<open>robust_json_parse py_loads ''Result: [1, 2] ok'' = Inr (JArr [JInt 1, JInt 2])\<close>
    by code_simp
  have dec: "\<forall>s v. py_loads s = Decoded v \<and> s \<noteq> [] \<longrightarrow>
                 (hd s = CHR ''{'' \<longrightarrow> is_JObj v) \<and> (hd s = CHR ''['' \<longrightarrow> is_JArr v)"
    using py_loads_opens by blast
  from result_is_container_unless_tagged_block [OF dec a b] a b show ?thesis by blast
qed

section \<open>Fenced blocks\<close>

lemma starts_with_fence_iff:
  "starts_with fence s \<longleftrightarrow> (\<exists>t. s = CHR 0x60 # CHR 0x60 # CHR 0x60 # t)"
proof (cases s)
  case Nil
  then show ?thesis by (simp add: fence_def)
next
  case c1: (Cons a s1)
  show ?thesis
  proof (cases s1)
    case Nil
    with c1 show ?thesis by (simp add: fence_def)
  next
    case c2: (Cons b s2)
    show ?thesis
    proof (cases s2)
      case Nil
      with c1 c2 show ?thesis by (simp add: fence_def)
    next
      case (Cons d s3)
      with c1 c2 show ?thesis by (auto simp: fence_def)
    qed
  qed
qed

lemma find_sub_fence_Cons:
  "\<not> starts_with fence (c # cs) \<Longrightarrow> find_sub fence (c # cs) = map_option Suc (find_sub fence cs)"
  by simp

lemma find_sub_fence_None_tl: "find_sub fence (c # cs) = None \<Longrightarrow> find_sub fence cs = None"
  by (simp split: if_splits)

lemma find_sub_fence_append:
  assumes "find_sub fence p = None" and "p \<noteq> [] \<longrightarrow> last p \<noteq> CHR 0x60"
  shows "find_sub fence (p @ t) = map_option (\<lambda>i. i + length p) (find_sub fence t)"
  using assms
proof (induction p)
  case Nil
  then show ?case by (simp add: option.map_ident)
next
  case (Cons c cs)
  have tl: "find_sub fence cs = None"
    using Cons.prems(1) find_sub_fence_None_tl by blast
  have lst: "cs \<noteq> [] \<longrightarrow> last cs \<noteq> CHR 0x60"
    using Cons.prems(2) by auto
  have nst: "\<not> starts_with fence (c # cs)"
    using Cons.prems(1) by (simp split: if_splits)
  have "\<not> starts_with fence (c # cs @ t)"
  proof
    assume "starts_with fence (c # cs @ t)"
    then obtain u where u: "c # cs @ t = CHR 0x60 # CHR 0x60 # CHR 0x60 # u"
      using starts_with_fence_iff by blast
    show False
    proof (cases cs)
      case Nil
      with u Cons.prems(2) show False by simp
    next
      case c1: (Cons d ds)
      show False
      proof (cases ds)
        case Nil
        with u c1 Cons.prems(2) show False by simp
      next
        case c2: (Cons e es)
        with u c1 nst show False by (simp add: fence_def)
      qed
    qed
  qed
  then have "find_sub fence ((c # cs) @ t) = map_option Suc (find_sub fence (cs @ t))"
    by simp
  also have "\<dots> = map_option Suc (map_option (\<lambda>i. i + length cs) (find_sub fence t))"
    using Cons.IH [OF tl lst] by simp
  finally show ?case
    by (simp add: option.map_comp comp_def)
qed

lemma find_sub_fence_ws: "\<forall>c \<in> set w. py_isspace c \<Longrightarrow> find_sub fence w = None"
proof (induction w)
  case Nil
  then show ?case by (simp add: fence_def)
next
  case (Cons c cs)
  then have "c \<noteq> CHR 0x60" by (auto simp: py_isspace_def)
  with Cons show ?case by (simp add: fence_def)
qed

lemma ws_last: "\<forall>c \<in> set w. py_isspace c \<Longrightarrow> w \<noteq> [] \<Longrightarrow> last w \<noteq> CHR 0x60"
proof -
  assume ws: "\<forall>c \<in> set w. py_isspace c" "w \<noteq> []"
  then have "py_isspace (last w)" by simp
  then show "last w \<noteq> CHR 0x60" by (auto simp: py_isspace_def)
qed

lemma is_json_tag_bt: "is_json_tag (c # s) \<Longrightarrow> c \<noteq> CHR 0x60"
  by (cases s rule: is_json_tag.cases) auto

lemma no_match_in_prefix:
  assumes t: "starts_with fence t"
    and np: "\<not> (starts_with fence (c # cs) \<and> is_json_tag (drop 3 (c # cs)))"
  shows "\<not> (starts_with fence (c # cs @ t) \<and> is_json_tag (drop 3 (c # cs @ t)))"
proof
  assume a: "starts_with fence (c # cs @ t) \<and> is_json_tag (drop 3 (c # cs @ t))"
  from t obtain t' where t': "t = CHR 0x60 # CHR 0x60 # CHR 0x60 # t'"
    using starts_with_fence_iff by blast
  from a obtain u where u: "c # cs @ t = CHR 0x60 # CHR 0x60 # CHR 0x60 # u"
    using starts_with_fence_iff by blast
  from a u have tag: "is_json_tag u" by simp
  consider "cs = []" | x1 where "cs = [x1]" | x1 x2 where "cs = [x1, x2]"
    | x1 x2 x3 where "cs = [x1, x2, x3]" | x1 x2 x3 x4 where "cs = [x1, x2, x3, x4]"
    | x1 x2 x3 x4 x5 where "cs = [x1, x2, x3, x4, x5]"
    | x1 x2 x3 x4 x5 x6 r where "cs = x1 # x2 # x3 # x4 # x5 # x6 # r"
    by (metis list.exhaust)
  then show False
  proof cases
    case 1
    with u t' tag show False by (auto dest: is_json_tag_bt)
  next
    case 2
    with u t' tag show False by (auto dest: is_json_tag_bt)
  next
    case 3
    with u t' tag show False by (auto dest: is_json_tag_bt)
  next
    case 4
    with u t' tag show False by auto
  next
    case 5
    with u t' tag show False by auto
  next
    case 6
    with u t' tag show False by auto
  next
    case 7
    with u np tag show False by (auto simp: fence_def)
  qed
qed

lemma findall_fenced_skip_prefix:
  "\<not> has_tagged_opening p \<Longrightarrow> starts_with fence t \<Longrightarrow>
   findall_fenced True (p @ t) = findall_fenced True t"
proof (induction p)
  case Nil
  then show ?case by simp
next
  case (Cons c cs)
  then have np: "\<not> (starts_with fence (c # cs) \<and> is_json_tag (drop 3 (c # cs)))"
    and rest: "\<not> has_tagged_opening cs"
    by auto
  from no_match_in_prefix [OF Cons.prems(2) np]
  have "findall_fenced True ((c # cs) @ t) = findall_fenced True (cs @ t)"
    by (auto simp: Let_def)
  with Cons.IH [OF rest Cons.prems(2)] show ?case by simp
qed

lemma strip_padded:
  assumes "\<forall>c \<in> set w1. py_isspace c" and "\<forall>c \<in> set w2. py_isspace c"
    and "p \<noteq> []" and "\<not> py_isspace (hd p)" and "\<not> py_isspace (last p)"
  shows "strip (w1 @ p @ w2) = p"
proof -
  have l: "dropWhile py_isspace (w1 @ p @ w2) = p @ w2"
    using assms(1,3,4) by (cases p) (simp_all add: dropWhile_append3)
  have "dropWhile py_isspace (rev w2 @ rev p) = rev p"
    using assms(2,3,5) by (cases "rev p") (simp_all add: dropWhile_append3 last_rev hd_rev)
  then show ?thesis
    by (simp add: strip_def lstrip_def rstrip_def l)
qed

lemma findall_fenced_blank: "\<forall>c \<in> set s. py_isspace c \<Longrightarrow> findall_fenced tagged s = []"
proof (induction s)
  case Nil
  then show ?case by simp
next
  case (Cons c cs)
  then have "c \<noteq> CHR 0x60" by (auto simp: py_isspace_def)
  with Cons show ?case by (simp add: fence_def Let_def)
qed

lemma first_parse_first:
  "\<forall>b \<in> set before. loads (strip b) = Invalid \<Longrightarrow> loads (strip m) = Decoded w \<Longrightarrow>
   first_parse loads (before @ m # after) = Decoded w"
  by (induction before) auto

lemma tagged_block_found:
  assumes np: "\<not> has_tagged_opening pre"
    and w1: "\<forall>c \<in> set w1. py_isspace c" and w2: "\<forall>c \<in> set w2. py_isspace c"
    and p: "payload \<noteq> []" "\<not> py_isspace (hd payload)" "\<not> py_isspace (last payload)"
    and nf: "find_sub fence payload = None" "last payload \<noteq> CHR 0x60"
  shows "\<exists>ms. findall_fenced True (pre @ fence @ ''json'' @ w1 @ payload @ w2 @ fence @ post)
           = payload # ms"
proof -
  let ?body = "w1 @ payload @ w2 @ fence @ post"
  have "find_sub fence (fence @ post) = Some 0"
    by (simp add: fence_def)
  then have "find_sub fence (w2 @ fence @ post) = Some (length w2)"
    using find_sub_fence_append [OF find_sub_fence_ws [OF w2], of "fence @ post"] ws_last [OF w2]
    by auto
  then have "find_sub fence (payload @ w2 @ fence @ post) = Some (length w2 + length payload)"
    using find_sub_fence_append [OF nf(1), of "w2 @ fence @ post"] nf(2) by simp
  then have q: "find_sub fence ?body = Some (length w2 + length payload + length w1)"
    using find_sub_fence_append [OF find_sub_fence_ws [OF w1], of "payload @ w2 @ fence @ post"]
      ws_last [OF w1]
    by auto
  have "findall_fenced True (fence @ ''json'' @ ?body)
      = strip (take (length w2 + length payload + length w1) ?body)
        # findall_fenced True (drop (length w2 + length payload + length w1 + 3) ?body)"
    using q by (simp add: fence_def Let_def)
  moreover have "take (length w2 + length payload + length w1) ?body = w1 @ payload @ w2"
    by simp
  moreover have "starts_with fence (fence @ ''json'' @ ?body)"
    by (simp add: fence_def)
  ultimately show ?thesis
    using findall_fenced_skip_prefix [OF np, of "fence @ ''json'' @ ?body"]
      strip_padded [OF w1 w2 p]
    by simp
qed

lemma strip_idem_trimmed:
  "p \<noteq> [] \<Longrightarrow> \<not> py_isspace (hd p) \<Longrightarrow> \<not> py_isspace (last p) \<Longrightarrow> strip p = p"
  using strip_padded [of "[]" "[]" p] by simp

text \<open>
  C6 (as amended). A text of the form prefix, tagged opening fence, whitespace, payload,
  whitespace, closing fence, suffix gives the decoded payload whatever the suffix is,
  provided the prefix holds no tagged opening fence of its own and the payload (trimmed,
  decodable) holds no fence and does not end in a backquote: otherwise the lazy group of
  the pattern pairs an earlier opening with the real opening fence, or stops inside the
  payload. And among several tagged blocks, the first in order of appearance whose trimmed
  content decodes is the result.
\<close>

theorem tagged_block_first_wins:
  "(\<not> has_tagged_opening pre \<and>
    (\<forall>c \<in> set w1. py_isspace c) \<and> (\<forall>c \<in> set w2. py_isspace c) \<and>
    payload \<noteq> [] \<and> \<not> py_isspace (hd payload) \<and> \<not> py_isspace (last payload) \<and>
    find_sub fence payload = None \<and> last payload \<noteq> CHR 0x60 \<and>
    loads payload = Decoded v
    \<longrightarrow> robust_json_parse loads
          (pre @ fence @ ''json'' @ w1 @ payload @ w2 @ fence @ post) = Inr v) \<and>
   (findall_fenced True text = before @ m # after \<and>
    (\<forall>b \<in> set before. loads (strip b) = Invalid) \<and> loads (strip m) = Decoded w
    \<longrightarrow> robust_json_parse loads text = Inr w)"
proof (intro conjI impI)
  assume a: "\<not> has_tagged_opening pre \<and>
    (\<forall>c \<in> set w1. py_isspace c) \<and> (\<forall>c \<in> set w2. py_isspace c) \<and>
    payload \<noteq> [] \<and> \<not> py_isspace (hd payload) \<and> \<not> py_isspace (last payload) \<and>
    find_sub fence payload = None \<and> last payload \<noteq> CHR 0x60 \<and>
    loads payload = Decoded v"
  let ?t = "pre @ fence @ ''json'' @ w1 @ payload @ w2 @ fence @ post"
  from a obtain ms where ms: "findall_fenced True ?t = payload # ms"
    using tagged_block_found [of pre w1 w2 payload post] by blast
  have "strip payload = payload"
    using a strip_idem_trimmed by blast
  with a ms have fp: "first_parse loads (findall_fenced True ?t) = Decoded v"
    by simp
  have "\<not> (\<forall>c \<in> set ?t. py_isspace c)"
    using a by (metis findall_fenced_blank list.distinct(1) ms)
  then have "?t \<noteq> [] \<and> strip ?t \<noteq> []"
    using strip_eq_Nil_iff by fastforce
  with fp show "robust_json_parse loads ?t = Inr v"
    by (simp add: robust_json_parse_def)
next
  assume b: "findall_fenced True text = before @ m # after \<and>
    (\<forall>b \<in> set before. loads (strip b) = Invalid) \<and> loads (strip m) = Decoded w"
  then have fp: "first_parse loads (findall_fenced True text) = Decoded w"
    using first_parse_first [of before loads m w after] by simp
  have "\<not> (\<forall>c \<in> set text. py_isspace c)"
    using b findall_fenced_blank [of "text" True] by auto
  then have "text \<noteq> [] \<and> strip text \<noteq> []"
    using strip_eq_Nil_iff by fastforce
  with fp show "robust_json_parse loads text = Inr w"
    by (simp add: robust_json_parse_def)
qed

theorem tagged_block_counterexample:
  \<open>py_loads ''{"a":1}'' = Decoded (JObj [(''a'', JInt 1)]) \<and>
   robust_json_parse py_loads
     (''Use ```json { tags: '' @ ''```json\<newline>'' @ ''{"a":1}'' @ ''\<newline>```'' @ '' done'')
     \<noteq> Inr (JObj [(''a'', JInt 1)])\<close>
  by code_simp

theorem tagged_block_first_wins_witness:
  \<open>robust_json_parse py_loads
     (''Sure! '' @ fence @ ''json'' @ ''\<newline>'' @ ''{"features":[{"id":1}]}'' @ ''\<newline>'' @ fence
        @ '' Hope that helps!'')
     = Inr (JObj [(''features'', JArr [JObj [(''id'', JInt 1)]])]) \<and>
    findall_fenced True ''```json\<newline>{oops}\<newline>``` then ```json [1] ``` and ```json [2] ```''
     = [''{oops}''] @ ''[1]'' # [''[2]''] \<and>
    robust_json_parse py_loads
      ''```json\<newline>{oops}\<newline>``` then ```json [1] ``` and ```json [2] ```'' = Inr (JArr [JInt 1])\<close>
proof -
  have h1: \<open>\<not> has_tagged_opening ''Sure! '' \<and>
    (\<forall>c \<in> set ''\<newline>''. py_isspace c) \<and> (\<forall>c \<in> set ''\<newline>''. py_isspace c) \<and>
    ''{"features":[{"id":1}]}'' \<noteq> [] \<and> \<not> py_isspace (hd ''{"features":[{"id":1}]}'') \<and>
    \<not> py_isspace (last ''{"features":[{"id":1}]}'') \<and>
    find_sub fence ''{"features":[{"id":1}]}'' = None \<and> last ''{"features":[{"id":1}]}'' \<noteq> CHR 0x60 \<and>
    py_loads ''{"features":[{"id":1}]}'' = Decoded (JObj [(''features'', JArr [JObj [(''id'', JInt 1)]])])\<close>
    by code_simp
  have h2: \<open>findall_fenced True ''```json\<newline>{oops}\<newline>``` then ```json [1] ``` and ```json [2] ```''
     = [''{oops}''] @ ''[1]'' # [''[2]''] \<and>
    (\<forall>b \<in> set [''{oops}'']. py_loads (strip b) = Invalid) \<and>
    py_loads (strip ''[1]'') = Decoded (JArr [JInt 1])\<close>
    by code_simp
  from tagged_block_first_wins [of \<open>''Sure! ''\<close> \<open>''\<newline>''\<close> \<open>''\<newline>''\<close>
      \<open>''{"features":[{"id":1}]}''\<close> py_loads
      \<open>JObj [(''features'', JArr [JObj [(''id'', JInt 1)]])]\<close> \<open>'' Hope that helps!''\<close>
      \<open>''```json\<newline>{oops}\<newline>``` then ```json [1] ``` and ```json [2] ```''\<close>
      \<open>[''{oops}'']\<close> \<open>''[1]''\<close> \<open>[''[2]'']\<close> \<open>JArr [JInt 1]\<close>] h1 h2
  show ?thesis by blast
qed

section \<open>A value embedded in prose\<close>

lemma span_found:
  assumes m: "mid \<noteq> []" "hd mid = a" "last mid = b" "a \<noteq> b"
    and pre: "a \<notin> set pre" and post: "b \<notin> set post"
  shows "find_char a (pre @ mid @ post) = int (length pre) \<and>
         rfind_char b (pre @ mid @ post) = int (length pre + length mid) - 1 \<and>
         int (length pre) < int (length pre + length mid) - 1 \<and>
         slice (pre @ mid @ post) (int (length pre)) (int (length pre + length mid) - 1 + 1) = mid"
proof -
  from m obtain t where t: "mid = a # t"
    by (cases mid) auto
  with m have "t \<noteq> []" by auto
  with m t obtain u where u: "t = u @ [b]"
    by (metis append_butlast_last_id last_ConsR)
  have f: "find_char a (pre @ mid @ post) = int (length pre)"
    using find_char_append [OF pre, of "t @ post"] by (simp add: t)
  have "rfind_char b ((pre @ a # u) @ b # post) = int (length (pre @ a # u))"
    using post by (rule rfind_char_append)
  then have r: "rfind_char b (pre @ mid @ post) = int (length pre + length mid) - 1"
    by (simp add: t u)
  have s: "slice (pre @ mid @ post) (int (length pre)) (int (length pre + length mid) - 1 + 1) = mid"
    using slice_middle [of pre mid post] by simp
  from f r s show ?thesis by (simp add: t u)
qed

lemma not_blank:
  "c \<in> set s \<Longrightarrow> \<not> py_isspace c \<Longrightarrow> \<not> (s = [] \<or> strip s = [])"
  using strip_eq_Nil_iff by auto

text \<open>
  C1 (as amended). An embedded value is not recovered from every surrounding text: the
  span the parser decodes runs from the first opening to the last closing brace of the
  whole text, and braces come before brackets, so an array that holds one object gives
  that object. What holds, for a text in which no fenced block decodes: an object that
  begins with a brace and ends with one, after prose without an opening brace and before
  prose without a closing brace, is recovered; an array, after prose without an opening
  bracket and before prose without a closing bracket, is recovered when strategies 3 to 5
  find nothing between the braces of the text (as when the text holds no brace).
\<close>

theorem embedded_value_recovered:
  "(first_parse loads (findall_fenced True (pre @ obj @ post)) = Invalid \<and>
    first_parse_plain loads (findall_fenced False (pre @ obj @ post)) = Invalid \<and>
    obj \<noteq> [] \<and> hd obj = CHR ''{'' \<and> last obj = CHR ''}'' \<and>
    CHR ''{'' \<notin> set pre \<and> CHR ''}'' \<notin> set post \<and> loads obj = Decoded v
    \<longrightarrow> robust_json_parse loads (pre @ obj @ post) = Inr v) \<and>
   (first_parse loads (findall_fenced True (pre @ arr @ post)) = Invalid \<and>
    first_parse_plain loads (findall_fenced False (pre @ arr @ post)) = Invalid \<and>
    brace_strategies loads (pre @ arr @ post) = Invalid \<and>
    arr \<noteq> [] \<and> hd arr = CHR ''['' \<and> last arr = CHR '']'' \<and>
    CHR ''['' \<notin> set pre \<and> CHR '']'' \<notin> set post \<and> loads arr = Decoded w
    \<longrightarrow> robust_json_parse loads (pre @ arr @ post) = Inr w)"
proof (intro conjI impI)
  assume a: "first_parse loads (findall_fenced True (pre @ obj @ post)) = Invalid \<and>
    first_parse_plain loads (findall_fenced False (pre @ obj @ post)) = Invalid \<and>
    obj \<noteq> [] \<and> hd obj = CHR ''{'' \<and> last obj = CHR ''}'' \<and>
    CHR ''{'' \<notin> set pre \<and> CHR ''}'' \<notin> set post \<and> loads obj = Decoded v"
  then have sp: "find_char CHR ''{'' (pre @ obj @ post) = int (length pre) \<and>
         rfind_char CHR ''}'' (pre @ obj @ post) = int (length pre + length obj) - 1 \<and>
         int (length pre) < int (length pre + length obj) - 1 \<and>
         slice (pre @ obj @ post) (int (length pre)) (int (length pre + length obj) - 1 + 1) = obj"
    using span_found [of obj "CHR ''{''" "CHR ''}''" pre post] by simp
  have "brace_strategies loads (pre @ obj @ post) = Decoded v"
    unfolding brace_strategies_def Let_def using sp a by simp
  moreover have "CHR ''{'' \<in> set (pre @ obj @ post)"
    using a by (metis Un_iff hd_in_set set_append)
  then have "\<not> (pre @ obj @ post = [] \<or> strip (pre @ obj @ post) = [])"
    by (rule not_blank) (simp add: py_isspace_def)
  ultimately show "robust_json_parse loads (pre @ obj @ post) = Inr v"
    using a by (simp add: robust_json_parse_def)
next
  assume a: "first_parse loads (findall_fenced True (pre @ arr @ post)) = Invalid \<and>
    first_parse_plain loads (findall_fenced False (pre @ arr @ post)) = Invalid \<and>
    brace_strategies loads (pre @ arr @ post) = Invalid \<and>
    arr \<noteq> [] \<and> hd arr = CHR ''['' \<and> last arr = CHR '']'' \<and>
    CHR ''['' \<notin> set pre \<and> CHR '']'' \<notin> set post \<and> loads arr = Decoded w"
  then have sp: "find_char CHR ''['' (pre @ arr @ post) = int (length pre) \<and>
         rfind_char CHR '']'' (pre @ arr @ post) = int (length pre + length arr) - 1 \<and>
         int (length pre) < int (length pre + length arr) - 1 \<and>
         slice (pre @ arr @ post) (int (length pre)) (int (length pre + length arr) - 1 + 1) = arr"
    using span_found [of arr "CHR ''[''" "CHR '']''" pre post] by simp
  have "bracket_strategy loads (pre @ arr @ post) = Decoded w"
    unfolding bracket_strategy_def Let_def using sp a by simp
  moreover have "CHR ''['' \<in> set (pre @ arr @ post)"
    using a by (metis Un_iff hd_in_set set_append)
  then have "\<not> (pre @ arr @ post = [] \<or> strip (pre @ arr @ post) = [])"
    by (rule not_blank) (simp add: py_isspace_def)
  ultimately show "robust_json_parse loads (pre @ arr @ post) = Inr w"
    using a by (simp add: robust_json_parse_def)
qed

theorem embedded_value_counterexample:
  \<open>py_loads ''[{"a":1}]'' = Decoded (JArr [JObj [(''a'', JInt 1)]]) \<and>
   robust_json_parse py_loads (''Result: '' @ ''[{"a":1}]'' @ '' done'')
     = Inr (JObj [(''a'', JInt 1)]) \<and>
   JObj [(''a'', JInt 1)] \<noteq> JArr [JObj [(''a'', JInt 1)]]\<close>
  by code_simp

theorem embedded_value_recovered_witness:
  \<open>robust_json_parse py_loads (''Here you go: '' @ ''{"n": [1, 2]}'' @ '' -- enjoy [sic]'')
     = Inr (JObj [(''n'', JArr [JInt 1, JInt 2])]) \<and>
   robust_json_parse py_loads (''The list '' @ ''[{"a":1},{"b":2}]'' @ '' is final.'')
     = Inr (JArr [JObj [(''a'', JInt 1)], JObj [(''b'', JInt 2)]])\<close>
proof -
  have h1: \<open>first_parse py_loads (findall_fenced True
        (''Here you go: '' @ ''{"n": [1, 2]}'' @ '' -- enjoy [sic]'')) = Invalid \<and>
    first_parse_plain py_loads (findall_fenced False
        (''Here you go: '' @ ''{"n": [1, 2]}'' @ '' -- enjoy [sic]'')) = Invalid \<and>
    ''{"n": [1, 2]}'' \<noteq> [] \<and> hd ''{"n": [1, 2]}'' = CHR ''{'' \<and> last ''{"n": [1, 2]}'' = CHR ''}'' \<and>
    CHR ''{'' \<notin> set ''Here you go: '' \<and> CHR ''}'' \<notin> set '' -- enjoy [sic]'' \<and>
    py_loads ''{"n": [1, 2]}'' = Decoded (JObj [(''n'', JArr [JInt 1, JInt 2])])\<close>
    by code_simp
  have h2: \<open>first_parse py_loads (findall_fenced True
        (''The list '' @ ''[{"a":1},{"b":2}]'' @ '' is final.'')) = Invalid \<and>
    first_parse_plain py_loads (findall_fenced False
        (''The list '' @ ''[{"a":1},{"b":2}]'' @ '' is final.'')) = Invalid \<and>
    brace_strategies py_loads (''The list '' @ ''[{"a":1},{"b":2}]'' @ '' is final.'') = Invalid \<and>
    ''[{"a":1},{"b":2}]'' \<noteq> [] \<and> hd ''[{"a":1},{"b":2}]'' = CHR ''['' \<and>
    last ''[{"a":1},{"b":2}]'' = CHR '']'' \<and>
    CHR ''['' \<notin> set ''The list '' \<and> CHR '']'' \<notin> set '' is final.'' \<and>
    py_loads ''[{"a":1},{"b":2}]'' = Decoded (JArr [JObj [(''a'', JInt 1)], JObj [(''b'', JInt 2)]])\<close>
    by code_simp
  from embedded_value_recovered [of py_loads \<open>''Here you go: ''\<close> \<open>''{"n": [1, 2]}''\<close>
      \<open>'' -- enjoy [sic]''\<close> \<open>JObj [(''n'', JArr [JInt 1, JInt 2])]\<close>
      \<open>''[{"a":1},{"b":2}]''\<close> \<open>JArr [JObj [(''a'', JInt 1)], JObj [(''b'', JInt 2)]]\<close>]
    h1
  have r1: \<open>robust_json_parse py_loads (''Here you go: '' @ ''{"n": [1, 2]}'' @ '' -- enjoy [sic]'')
     = Inr (JObj [(''n'', JArr [JInt 1, JInt 2])])\<close>
    by blast
  from embedded_value_recovered [of py_loads \<open>''The list ''\<close> \<open>''{}''\<close>
      \<open>'' is final.''\<close> \<open>JObj []\<close>
      \<open>''[{"a":1},{"b":2}]''\<close> \<open>JArr [JObj [(''a'', JInt 1)], JObj [(''b'', JInt 2)]]\<close>]
    h2
  have r2: \<open>robust_json_parse py_loads (''The list '' @ ''[{"a":1},{"b":2}]'' @ '' is final.'')
     = Inr (JArr [JObj [(''a'', JInt 1)], JObj [(''b'', JInt 2)]])\<close>
    by blast
  from r1 r2 show ?thesis by blast
qed

section \<open>Repair of a trailing comma\<close>

lemma strip_line_comments_id: "find_sub ''//'' s = None \<Longrightarrow> strip_line_comments s = s"
  by (induction s) (auto split: if_splits)

lemma strip_block_comments_id: "find_sub ''/*'' s = None \<Longrightarrow> strip_block_comments s = s"
  by (induction s) (auto split: if_splits)

text \<open>
  Where the repair works. For an input that is an object text (from a brace to a brace)
  in which no fenced block decodes, that holds neither \<^verbatim>\<open>//\<close> nor \<^verbatim>\<open>/*\<close>, and that
  the decoder rejects as written, the parser returns what the decoder gives on the
  input with every comma dropped that is followed, after optional whitespace, by a
  closing brace or bracket.
\<close>

lemma trailing_comma_repaired:
  assumes shape: "x \<noteq> []" "hd x = CHR ''{''" "last x = CHR ''}''"
    and nofence: "first_parse loads (findall_fenced True x) = Invalid"
                 "first_parse_plain loads (findall_fenced False x) = Invalid"
    and nocomment: "find_sub ''//'' x = None" "find_sub ''/*'' x = None"
    and invalid: "loads x = Invalid"
    and fixed: "loads (remove_trailing_commas x) = Decoded v"
  shows "robust_json_parse loads x = Inr v"
proof -
  have sp: "find_char CHR ''{'' x = 0 \<and> rfind_char CHR ''}'' x = int (length x) - 1 \<and>
      0 < int (length x) - 1 \<and> slice x 0 (int (length x) - 1 + 1) = x"
    using span_found [of x "CHR ''{''" "CHR ''}''" "[]" "[]"] shape by simp
  have rep: "repair x = remove_trailing_commas x"
    using nocomment by (simp add: repair_def strip_line_comments_id strip_block_comments_id)
  have "brace_strategies loads x = Decoded v"
    unfolding brace_strategies_def Let_def using sp invalid fixed rep shape(1) by simp
  moreover have "CHR ''{'' \<in> set x"
    using shape by (metis hd_in_set)
  then have "\<not> (x = [] \<or> strip x = [])"
    by (rule not_blank) (simp add: py_isspace_def)
  ultimately show ?thesis
    using nofence by (simp add: robust_json_parse_def)
qed

lemma trailing_comma_repaired_example:
  \<open>remove_trailing_commas ''{"test_points": [ {"id":1,"name":"Valid login"}, ]}''
     = ''{"test_points": [ {"id":1,"name":"Valid login"} ]}'' \<and>
   robust_json_parse py_loads ''{"test_points": [ {"id":1,"name":"Valid login"}, ]}''
     = Inr (JObj [(''test_points'', JArr [JObj [(''id'', JInt 1), (''name'', JStr ''Valid login'')]])])\<close>
proof -
  let ?x = \<open>''{"test_points": [ {"id":1,"name":"Valid login"}, ]}''\<close>
  let ?v = \<open>JObj [(''test_points'', JArr [JObj [(''id'', JInt 1), (''name'', JStr ''Valid login'')]])]\<close>
  have 1: "?x \<noteq> []" and 2: "hd ?x = CHR ''{''" and 3: "last ?x = CHR ''}''"
    by simp_all
  have 4: "first_parse py_loads (findall_fenced True ?x) = Invalid" by code_simp
  have 5: "first_parse_plain py_loads (findall_fenced False ?x) = Invalid" by code_simp
  have 6: "find_sub ''//'' ?x = None" by code_simp
  have 7: "find_sub ''/*'' ?x = None" by code_simp
  have 8: "py_loads ?x = Invalid" by code_simp
  have 9: "py_loads (remove_trailing_commas ?x) = Decoded ?v" by code_simp
  have 10: \<open>remove_trailing_commas ?x = ''{"test_points": [ {"id":1,"name":"Valid login"} ]}''\<close>
    by code_simp
  from trailing_comma_repaired [OF 1 2 3 4 5 6 7 8 9] 10 show ?thesis by simp
qed

text \<open>
  C5. The code does not keep the claim on an object one of whose strings holds \<^verbatim>\<open>//\<close>,
  such as a URL. The repair passes are textual and run together on the same slice: the
  pass that strips \<^verbatim>\<open>//\<close> comments cuts the text from the \<^verbatim>\<open>//\<close> inside the string to the
  end of the line, before the pass that drops the comma has run. On the object below,
  valid but for one trailing comma, the repaired text is \<^verbatim>\<open>{"url":"http:\<close>; neither it,
  nor a line prefix of it, nor the span from the first bracket to the last decodes, and
  the parser raises the extraction failure, where the comma-free version decodes.
\<close>

theorem trailing_comma_lost_after_url:
  \<open>py_loads ''{"url":"http://x.io","tags":["a"]}''
     = Decoded (JObj [(''url'', JStr ''http://x.io''), (''tags'', JArr [JStr ''a''])]) \<and>
   remove_trailing_commas ''{"url":"http://x.io","tags":["a",]}''
     = ''{"url":"http://x.io","tags":["a"]}'' \<and>
   repair ''{"url":"http://x.io","tags":["a",]}'' = ''{"url":"http:'' \<and>
   robust_json_parse py_loads ''{"url":"http://x.io","tags":["a",]}''
     = Inl (JSONDecodeError (no_json_msg ''{"url":"http://x.io","tags":["a",]}'')
              ''{"url":"http://x.io","tags":["a",]}'' 0)\<close>
  by code_simp

section \<open>Snapshots of a streamed reply\<close>

lemma stream_from_prefix: "s \<in> set (stream_from content chunks) \<Longrightarrow> prefix content s"
proof (induction content chunks rule: stream_from.induct)
  case (1 content)
  then show ?case by simp
next
  case (2 content chunks)
  then show ?case by simp
next
  case (3 content chunk_content chunks)
  then show ?case
    by (auto dest: append_prefixD)
qed

lemma stream_from_sorted: "sorted_wrt prefix (stream_from content chunks)"
  by (induction content chunks rule: stream_from.induct) (auto dest: stream_from_prefix)

lemma stream_from_strict_prefix:
  "Some [] \<notin> set chunks \<Longrightarrow> s \<in> set (stream_from content chunks) \<Longrightarrow> strict_prefix content s"
proof (induction content chunks rule: stream_from.induct)
  case (1 content)
  then show ?case by simp
next
  case (2 content chunks)
  then show ?case by simp
next
  case (3 content chunk_content chunks)
  from "3.prems" have ne: "chunk_content \<noteq> []" and rest: "Some [] \<notin> set chunks"
    by auto
  have step: "strict_prefix content (content @ chunk_content)"
    using ne by (simp add: strict_prefix_def)
  from "3.prems"(2) consider "s = content @ chunk_content"
    | "s \<in> set (stream_from (content @ chunk_content) chunks)"
    by auto
  then show ?case
  proof cases
    case 1
    with step show ?thesis by simp
  next
    case 2
    then have "strict_prefix (content @ chunk_content) s"
      using "3.IH" rest by blast
    with step show ?thesis
      by (rule prefix_order.less_trans)
  qed
qed

lemma stream_from_strictly_sorted:
  "Some [] \<notin> set chunks \<Longrightarrow> sorted_wrt strict_prefix (stream_from content chunks)"
  by (induction content chunks rule: stream_from.induct) (auto dest: stream_from_strict_prefix)

lemma stream_from_last:
  "last (content # stream_from content chunks) = content @ concat (map chunk_text chunks)"
  by (induction content chunks rule: stream_from.induct) (auto simp: chunk_text_def)

lemma consume_eq: "consume r snaps = (map Surfaced snaps, last (r # snaps))"
  by (induction snaps arbitrary: r) auto

text \<open>
  C9 (as amended). The generator yields after every chunk whose content is not
  \<^verbatim>\<open>None\<close>, also when that content is the empty string, so a snapshot may repeat the
  one before it. What holds: the stage surfaces the snapshots in the order received, each
  one extends the one before it as a prefix (strictly when no chunk carries the empty
  string), and the parser runs once, after the last snapshot, on the complete text.
\<close>

theorem stream_surfaced_then_parsed_once:
  assumes "\<not> (prd_text = [] \<or> strip prd_text = [])"
  shows "generate_features_for_gradio_stream loads pystr prd_text chunks
           = map Surfaced (generate_response_vllm_stream chunks)
             @ [Parsed (concat (map chunk_text chunks))
                       (parse_features loads pystr (concat (map chunk_text chunks)))] \<and>
         sorted_wrt prefix (generate_response_vllm_stream chunks) \<and>
         (Some [] \<notin> set chunks \<longrightarrow>
            sorted_wrt strict_prefix (generate_response_vllm_stream chunks))"
  using assms stream_from_last [of "[]" chunks]
  by (simp add: generate_features_for_gradio_stream_def generate_response_vllm_stream_def
      consume_eq stream_from_sorted stream_from_strictly_sorted)

theorem stream_strict_growth_counterexample:
  "generate_response_vllm_stream [Some ''T'', Some ''''] = [''T'', ''T''] \<and>
   \<not> strict_prefix ''T'' ''T''"
  by (simp add: generate_response_vllm_stream_def)

theorem stream_surfaced_then_parsed_once_witness:
  "generate_features_for_gradio_stream (\<lambda>s. Invalid) (\<lambda>v. []) ''PRD'' [Some ''T'', Some ''h'', None, Some ''e'']
     = [Surfaced ''T'', Surfaced ''Th'', Surfaced ''The'',
        Parsed ''The'' (parse_features (\<lambda>s. Invalid) (\<lambda>v. []) ''The'')] \<and>
   sorted_wrt strict_prefix [''T'', ''Th'', ''The'']"
proof -
  have nb: "\<not> (''PRD'' = [] \<or> strip ''PRD'' = [])"
    by (simp add: strip_eq_Nil_iff py_isspace_def)
  have ne: "Some [] \<notin> set [Some ''T'', Some ''h'', None, Some ''e'']"
    by simp
  have g: "generate_response_vllm_stream [Some ''T'', Some ''h'', None, Some ''e'']
     = [''T'', ''Th'', ''The'']"
    by (simp add: generate_response_vllm_stream_def)
  have c: "concat (map chunk_text [Some ''T'', Some ''h'', None, Some ''e'']) = ''The''"
    by (simp add: chunk_text_def)
  from stream_surfaced_then_parsed_once [OF nb, of "\<lambda>s. Invalid" "\<lambda>v. []"
      "[Some ''T'', Some ''h'', None, Some ''e'']"] ne
  show ?thesis
    unfolding g c by simp
qed

section \<open>Isolation of failures in the full pipeline\<close>

lemma map_of_store: "map_of (store d k v) = (map_of d)(k \<mapsto> v)"
  by (induction d k v rule: store.induct) auto

lemma keys_store: "fst ` set (store d k v) = insert k (fst ` set d)"
  by (induction d k v rule: store.induct) auto

lemma distinct_store: "distinct (map fst d) \<Longrightarrow> distinct (map fst (store d k v))"
proof (induction d k v rule: store.induct)
  case (1 k v)
  then show ?case by simp
next
  case (2 k' v' d k v)
  then show ?case
    using keys_store [of d k v] by (auto simp: image_iff)
qed

lemma in_store: "x \<in> set (store d k v) \<Longrightarrow> snd x = v \<or> x \<in> set d"
  by (induction d k v rule: store.induct) (auto split: if_splits)

lemma stage_try_records_dicts: "list_all is_JObj (records (stage_try k loads reply))"
  by (auto simp: stage_try_def and_then_def validate_records_def
      split: sum.splits json.splits if_splits)

lemma slice_to_all: "list_all P xs \<Longrightarrow> list_all P (slice_to n xs)"
  by (auto simp: slice_to_def list_all_iff split: option.splits dest: in_set_takeD)

lemma test_points_loop_result:
  assumes "list_all is_JObj fs"
  shows "\<exists>acc'. test_points_loop loads True cap tp_reply (enumerate n fs) acc = Inr acc' \<and>
           (\<forall>i. map_of acc' i =
              (if n \<le> i \<and> i < n + length fs \<and>
                  success (stage_try ''test_points'' loads (tp_reply i (fs ! (i - n))))
               then Some (slice_to cap
                      (records (stage_try ''test_points'' loads (tp_reply i (fs ! (i - n))))))
               else map_of acc i)) \<and>
           (distinct (map fst acc) \<longrightarrow> distinct (map fst acc')) \<and>
           fst ` set acc' \<subseteq> fst ` set acc \<union> {n ..< n + length fs} \<and>
           ((\<forall>x \<in> set acc. list_all is_JObj (snd x))
              \<longrightarrow> (\<forall>x \<in> set acc'. list_all is_JObj (snd x)))"
  using assms
proof (induction fs arbitrary: n acc)
  case Nil
  then show ?case by auto
next
  case (Cons f fs)
  let ?r = "stage_try ''test_points'' loads (tp_reply n f)"
  let ?acc1 = "if success ?r then store acc n (slice_to cap (records ?r)) else acc"
  from Cons.prems have f: "is_JObj f" and fs: "list_all is_JObj fs"
    by simp_all
  from Cons.IH [OF fs, of "Suc n" ?acc1] obtain acc' where
    run: "test_points_loop loads True cap tp_reply (enumerate (Suc n) fs) ?acc1 = Inr acc'"
    and slots: "\<And>i. map_of acc' i =
              (if Suc n \<le> i \<and> i < Suc n + length fs \<and>
                  success (stage_try ''test_points'' loads (tp_reply i (fs ! (i - Suc n))))
               then Some (slice_to cap
                      (records (stage_try ''test_points'' loads (tp_reply i (fs ! (i - Suc n))))))
               else map_of ?acc1 i)"
    and dist: "distinct (map fst ?acc1) \<longrightarrow> distinct (map fst acc')"
    and keys: "fst ` set acc' \<subseteq> fst ` set ?acc1 \<union> {Suc n ..< Suc n + length fs}"
    and vals: "(\<forall>x \<in> set ?acc1. list_all is_JObj (snd x))
              \<longrightarrow> (\<forall>x \<in> set acc'. list_all is_JObj (snd x))"
    by blast
  have step: "test_points_loop loads True cap tp_reply (enumerate n (f # fs)) acc = Inr acc'"
    using run f
    by (simp add: and_then_def validate_dict_def generate_test_points_def stage_endpoint_def)
  have nth: "(f # fs) ! (i - n) = fs ! (i - Suc n)" if "Suc n \<le> i" for i
    using that by (simp add: Suc_diff_le)
  have s: "map_of acc' i =
              (if n \<le> i \<and> i < n + length (f # fs) \<and>
                  success (stage_try ''test_points'' loads (tp_reply i ((f # fs) ! (i - n))))
               then Some (slice_to cap
                      (records (stage_try ''test_points'' loads (tp_reply i ((f # fs) ! (i - n))))))
               else map_of acc i)" for i
  proof (cases "Suc n \<le> i")
    case True
    then show ?thesis
      using slots [of i] nth [OF True] by (auto simp: map_of_store)
  next
    case False
    then show ?thesis
      using slots [of i] by (cases "i = n") (auto simp: map_of_store)
  qed
  have d: "distinct (map fst acc) \<longrightarrow> distinct (map fst acc')"
    using dist distinct_store [of acc n] by auto
  have k: "fst ` set acc' \<subseteq> fst ` set acc \<union> {n ..< n + length (f # fs)}"
    using keys keys_store [of acc n] by (auto split: if_splits)
  have v: "(\<forall>x \<in> set acc. list_all is_JObj (snd x))
              \<longrightarrow> (\<forall>x \<in> set acc'. list_all is_JObj (snd x))"
  proof
    assume a: "\<forall>x \<in> set acc. list_all is_JObj (snd x)"
    have "\<forall>x \<in> set ?acc1. list_all is_JObj (snd x)"
      using a slice_to_all [OF stage_try_records_dicts, of cap "''test_points''" loads "tp_reply n f"]
      by (auto dest!: in_store)
    with vals show "\<forall>x \<in> set acc'. list_all is_JObj (snd x)" by blast
  qed
  from step s d k v show ?case by blast
qed

lemma test_cases_inner_result:
  assumes "list_all is_JObj tps"
  shows "\<exists>acc'. test_cases_inner loads True reply fi (enumerate m tps) acc = Inr acc' \<and>
           (\<forall>a j. map_of acc' (a, j) =
              (if a = fi \<and> m \<le> j \<and> j < m + length tps \<and>
                  success (stage_try ''test_cases'' loads (reply j (tps ! (j - m))))
               then Some (records (stage_try ''test_cases'' loads (reply j (tps ! (j - m)))))
               else map_of acc (a, j)))"
  using assms
proof (induction tps arbitrary: m acc)
  case Nil
  then show ?case by auto
next
  case (Cons t tps)
  let ?r = "stage_try ''test_cases'' loads (reply m t)"
  let ?acc1 = "if success ?r then store acc (fi, m) (records ?r) else acc"
  from Cons.prems have t: "is_JObj t" and tps: "list_all is_JObj tps"
    by simp_all
  from Cons.IH [OF tps, of "Suc m" ?acc1] obtain acc' where
    run: "test_cases_inner loads True reply fi (enumerate (Suc m) tps) ?acc1 = Inr acc'"
    and slots: "\<And>a j. map_of acc' (a, j) =
              (if a = fi \<and> Suc m \<le> j \<and> j < Suc m + length tps \<and>
                  success (stage_try ''test_cases'' loads (reply j (tps ! (j - Suc m))))
               then Some (records (stage_try ''test_cases'' loads (reply j (tps ! (j - Suc m)))))
               else map_of ?acc1 (a, j))"
    by blast
  have step: "test_cases_inner loads True reply fi (enumerate m (t # tps)) acc = Inr acc'"
    using run t
    by (simp add: and_then_def validate_dict_def generate_test_cases_def stage_endpoint_def)
  have nth: "(t # tps) ! (j - m) = tps ! (j - Suc m)" if "Suc m \<le> j" for j
    using that by (simp add: Suc_diff_le)
  have "map_of acc' (a, j) =
              (if a = fi \<and> m \<le> j \<and> j < m + length (t # tps) \<and>
                  success (stage_try ''test_cases'' loads (reply j ((t # tps) ! (j - m))))
               then Some (records (stage_try ''test_cases'' loads (reply j ((t # tps) ! (j - m)))))
               else map_of acc (a, j))" for a j
  proof (cases "Suc m \<le> j")
    case True
    then show ?thesis
      using slots [of a j] nth [OF True] by (auto simp: map_of_store)
  next
    case False
    then show ?thesis
      using slots [of a j] by (cases "j = m") (auto simp: map_of_store)
  qed
  with step show ?case by blast
qed

lemma test_cases_loop_result:
  assumes "list_all is_JObj features"
    and "distinct (map fst tpl)"
    and "\<forall>x \<in> set tpl. fst x < length features \<and> list_all is_JObj (snd x)"
  shows "\<exists>acc'. test_cases_loop loads True tc_reply features tpl acc = Inr acc' \<and>
           (\<forall>i j. map_of acc' (i, j) =
              (case map_of tpl i of
                 None \<Rightarrow> map_of acc (i, j)
               | Some tps \<Rightarrow>
                   if j < length tps \<and>
                      success (stage_try ''test_cases'' loads (tc_reply i j (features ! i) (tps ! j)))
                   then Some (records
                          (stage_try ''test_cases'' loads (tc_reply i j (features ! i) (tps ! j))))
                   else map_of acc (i, j)))"
  using assms(2,3)
proof (induction tpl arbitrary: acc)
  case Nil
  then show ?case by simp
next
  case (Cons p tpl)
  obtain fi tps where p: "p = (fi, tps)"
    by (cases p)
  from Cons.prems p have fi: "fi < length features" and tps: "list_all is_JObj tps"
    and dist: "distinct (map fst tpl)" and fresh: "map_of tpl fi = None"
    and rest: "\<forall>x \<in> set tpl. fst x < length features \<and> list_all is_JObj (snd x)"
    by (auto simp: map_of_eq_None_iff)
  from fi assms(1) have feat: "is_JObj (features ! fi)"
    by (simp add: list_all_length)
  from test_cases_inner_result [OF tps, of loads "\<lambda>j. tc_reply fi j (features ! fi)" fi 0 acc]
  obtain acc1 where
    inner: "test_cases_inner loads True (\<lambda>j. tc_reply fi j (features ! fi)) fi
              (enumerate 0 tps) acc = Inr acc1"
    and s1: "\<And>a j. map_of acc1 (a, j) =
              (if a = fi \<and> j < length tps \<and>
                  success (stage_try ''test_cases'' loads (tc_reply fi j (features ! fi) (tps ! j)))
               then Some (records
                      (stage_try ''test_cases'' loads (tc_reply fi j (features ! fi) (tps ! j))))
               else map_of acc (a, j))"
    by auto
  from Cons.IH [OF dist rest, of acc1] obtain acc' where
    run: "test_cases_loop loads True tc_reply features tpl acc1 = Inr acc'"
    and s2: "\<And>i j. map_of acc' (i, j) =
              (case map_of tpl i of
                 None \<Rightarrow> map_of acc1 (i, j)
               | Some tps \<Rightarrow>
                   if j < length tps \<and>
                      success (stage_try ''test_cases'' loads (tc_reply i j (features ! i) (tps ! j)))
                   then Some (records
                          (stage_try ''test_cases'' loads (tc_reply i j (features ! i) (tps ! j))))
                   else map_of acc1 (i, j))"
    by blast
  have step: "test_cases_loop loads True tc_reply features (p # tpl) acc = Inr acc'"
    using fi feat inner run by (simp add: p and_then_def validate_dict_def)
  have "map_of acc' (i, j) =
              (case map_of (p # tpl) i of
                 None \<Rightarrow> map_of acc (i, j)
               | Some tps \<Rightarrow>
                   if j < length tps \<and>
                      success (stage_try ''test_cases'' loads (tc_reply i j (features ! i) (tps ! j)))
                   then Some (records
                          (stage_try ''test_cases'' loads (tc_reply i j (features ! i) (tps ! j))))
                   else map_of acc (i, j))" for i j
  proof (cases "i = fi")
    case True
    then show ?thesis
      using s2 [of i j] s1 [of i j] fresh by (simp add: p)
  next
    case False
    then show ?thesis
      using s2 [of i j] s1 [of i j] by (simp add: p split: option.splits)
  qed
  with step show ?case by blast
qed

text \<open>
  C8. With the client initialised the full pipeline always returns a response. The
  response reports success exactly when the extraction of features succeeded. Then the
  slot of feature \<open>i\<close> holds the (capped) test points of its own sub-call when that
  sub-call succeeded and is absent otherwise, and the slot \<open>(i, j)\<close> holds the test cases
  of its own sub-call when the slot \<open>i\<close> has a test point at \<open>j\<close> and that sub-call
  succeeded, and is absent otherwise: no slot depends on the outcome of a sibling call.
\<close>

theorem pipeline_isolates_failures:
  "\<exists>resp. run_full_pipeline loads True max_features max_test_points_per_feature
             features_reply tp_reply tc_reply = Inr resp \<and>
     p_success resp = success (stage_try ''features'' loads features_reply) \<and>
     (p_success resp \<longrightarrow>
        p_features resp = slice_to max_features (records (stage_try ''features'' loads features_reply)) \<and>
        (\<forall>i. map_of (p_test_points resp) i =
           (if i < length (p_features resp) \<and>
               success (stage_try ''test_points'' loads (tp_reply i (p_features resp ! i)))
            then Some (slice_to max_test_points_per_feature
                   (records (stage_try ''test_points'' loads (tp_reply i (p_features resp ! i)))))
            else None)) \<and>
        (\<forall>i j. map_of (p_test_cases resp) (i, j) =
           (case map_of (p_test_points resp) i of
              None \<Rightarrow> None
            | Some tps \<Rightarrow>
                if j < length tps \<and>
                   success (stage_try ''test_cases'' loads
                              (tc_reply i j (p_features resp ! i) (tps ! j)))
                then Some (records (stage_try ''test_cases'' loads
                              (tc_reply i j (p_features resp ! i) (tps ! j))))
                else None)))"
proof (cases "success (stage_try ''features'' loads features_reply)")
  case False
  then show ?thesis
    by (simp add: run_full_pipeline_def extract_features_def stage_endpoint_def and_then_def)
next
  case True
  let ?fr = "stage_try ''features'' loads features_reply"
  let ?fs = "slice_to max_features (records ?fr)"
  have fs: "list_all is_JObj ?fs"
    by (rule slice_to_all [OF stage_try_records_dicts])
  from test_points_loop_result [OF fs, of loads max_test_points_per_feature tp_reply 0 "[]"]
  obtain atp where
    l2: "test_points_loop loads True max_test_points_per_feature tp_reply (enumerate 0 ?fs) []
           = Inr atp"
    and s2: "\<And>i. map_of atp i =
           (if i < length ?fs \<and> success (stage_try ''test_points'' loads (tp_reply i (?fs ! i)))
            then Some (slice_to max_test_points_per_feature
                   (records (stage_try ''test_points'' loads (tp_reply i (?fs ! i)))))
            else None)"
    and d2: "distinct (map fst atp)"
    and k2: "fst ` set atp \<subseteq> {0 ..< length ?fs}"
    and v2: "\<forall>x \<in> set atp. list_all is_JObj (snd x)"
    by auto
  have pre3: "\<forall>x \<in> set atp. fst x < length ?fs \<and> list_all is_JObj (snd x)"
    using k2 v2 by auto
  from test_cases_loop_result [OF fs d2 pre3, of loads tc_reply "[]"]
  obtain atc where
    l3: "test_cases_loop loads True tc_reply ?fs atp [] = Inr atc"
    and s3': "\<forall>i j. map_of atc (i, j) =
              (case map_of atp i of
                 None \<Rightarrow> map_of [] (i, j)
               | Some tps \<Rightarrow>
                   if j < length tps \<and>
                      success (stage_try ''test_cases'' loads (tc_reply i j (?fs ! i) (tps ! j)))
                   then Some (records
                          (stage_try ''test_cases'' loads (tc_reply i j (?fs ! i) (tps ! j))))
                   else map_of [] (i, j))"
    by blast
  have s3: "map_of atc (i, j) =
              (case map_of atp i of
                 None \<Rightarrow> None
               | Some tps \<Rightarrow>
                   if j < length tps \<and>
                      success (stage_try ''test_cases'' loads (tc_reply i j (?fs ! i) (tps ! j)))
                   then Some (records
                          (stage_try ''test_cases'' loads (tc_reply i j (?fs ! i) (tps ! j))))
                   else None)" for i j
    using s3' by (simp split: option.splits)
  have run: "run_full_pipeline loads True max_features max_test_points_per_feature
               features_reply tp_reply tc_reply
             = Inr \<lparr>p_success = True, p_features = ?fs, p_test_points = atp,
                    p_test_cases = atc, p_error = None\<rparr>"
    using True l2 l3
    by (simp add: run_full_pipeline_def extract_features_def stage_endpoint_def and_then_def
        Let_def)
  show ?thesis
    using True s2 s3 by (simp add: run)
qed

theorem pipeline_isolates_failures_witness:
  \<open>run_full_pipeline py_loads True None None
      (Inr ''{"features":[{"id":1},{"id":2}]}'')
      (\<lambda>i feature. if i = 0 then Inr ''no json here''
                     else Inr ''{"test_points":[{"id":1},{"id":2}]}'')
      (\<lambda>i j feature test_point. if j = 0 then Inl (OtherError ''timeout'')
                     else Inr ''{"test_cases":[{"case_id":"TC1"}]}'')
    = Inr \<lparr>p_success = True,
           p_features = [JObj [(''id'', JInt 1)], JObj [(''id'', JInt 2)]],
           p_test_points = [(1, [JObj [(''id'', JInt 1)], JObj [(''id'', JInt 2)]])],
           p_test_cases = [((1, 1), [JObj [(''case_id'', JStr ''TC1'')]])],
           p_error = None\<rparr> \<and>
   success (stage_try ''features'' py_loads (Inr ''{"features":[{"id":1},{"id":2}]}'')) \<and>
   \<not> success (stage_try ''test_points'' py_loads (Inr ''no json here''))\<close>
proof -
  let ?fr = \<open>Inr ''{"features":[{"id":1},{"id":2}]}'' :: exn + string\<close>
  let ?tp = \<open>\<lambda>(i::nat) (feature::json). if i = 0 then Inr ''no json here''
                     else (Inr ''{"test_points":[{"id":1},{"id":2}]}'' :: exn + string)\<close>
  let ?tc = \<open>\<lambda>(i::nat) (j::nat) (feature::json) (test_point::json).
               if j = 0 then Inl (OtherError ''timeout'')
                     else (Inr ''{"test_cases":[{"case_id":"TC1"}]}'' :: exn + string)\<close>
  let ?resp = \<open>\<lparr>p_success = True,
           p_features = [JObj [(''id'', JInt 1)], JObj [(''id'', JInt 2)]],
           p_test_points = [(1, [JObj [(''id'', JInt 1)], JObj [(''id'', JInt 2)]])],
           p_test_cases = [((1, 1), [JObj [(''case_id'', JStr ''TC1'')]])],
           p_error = None\<rparr>\<close>
  have run: "run_full_pipeline py_loads True None None ?fr ?tp ?tc = Inr ?resp"
    by code_simp
  from pipeline_isolates_failures [of py_loads None None ?fr ?tp ?tc]
  obtain resp where r: "run_full_pipeline py_loads True None None ?fr ?tp ?tc = Inr resp"
    and ok: "p_success resp = success (stage_try ''features'' py_loads ?fr)"
    and slots: "p_success resp \<longrightarrow> (\<forall>i. map_of (p_test_points resp) i =
           (if i < length (p_features resp) \<and>
               success (stage_try ''test_points'' py_loads (?tp i (p_features resp ! i)))
            then Some (slice_to None
                   (records (stage_try ''test_points'' py_loads (?tp i (p_features resp ! i)))))
            else None))"
    by blast
  have eq: "resp = ?resp"
    using r run by simp
  have ps: "p_success resp"
    by (simp add: eq)
  with ok have a: "success (stage_try ''features'' py_loads ?fr)"
    by simp
  from slots ps have sl: "map_of (p_test_points resp) 0 =
           (if 0 < length (p_features resp) \<and>
               success (stage_try ''test_points'' py_loads (?tp 0 (p_features resp ! 0)))
            then Some (slice_to None
                   (records (stage_try ''test_points'' py_loads (?tp 0 (p_features resp ! 0)))))
            else None)"
    by blast
  have none: "map_of (p_test_points resp) 0 = None" and len: "0 < length (p_features resp)"
    by (simp_all add: eq)
  have arg: "?tp 0 (p_features resp ! 0) = Inr ''no json here''"
    by simp
  from sl none len have "\<not> success (stage_try ''test_points'' py_loads (?tp 0 (p_features resp ! 0)))"
    by (metis option.distinct(1))
  then have b: "\<not> success (stage_try ''test_points'' py_loads (Inr ''no json here''))"
    unfolding arg .
  from run a b show ?thesis by blast
qed

section \<open>Validation in the stage adapters\<close>

lemma and_then_Inr: "and_then r f = Inr y \<longleftrightarrow> (\<exists>x. r = Inr x \<and> f x = Inr y)"
  by (cases r) (auto simp: and_then_def)

lemma each_Cons_Inr: "each f (x # xs) = Inr ys \<Longrightarrow> \<exists>y. f x = Inr y"
  by (auto simp: and_then_Inr)

lemma field_needs_dict: "field pystr item k d = Inr t \<Longrightarrow> is_JObj item"
  by (cases item) (auto simp: field_def and_then_Inr)

lemma render_feature_needs_dict: "render_feature pystr item = Inr t \<Longrightarrow> is_JObj item"
  by (auto simp: render_feature_def and_then_Inr dest: field_needs_dict)

lemma render_test_point_needs_dict: "render_test_point pystr item = Inr t \<Longrightarrow> is_JObj item"
  by (auto simp: render_test_point_def and_then_Inr dest: field_needs_dict)

lemma render_test_case_needs_dict: "render_test_case pystr item = Inr t \<Longrightarrow> is_JObj item"
  by (auto simp: render_test_case_def and_then_Inr dest: field_needs_dict)

lemma rendered_items_array:
  assumes items: "py_iter v = Inr items" and nonempty: "items \<noteq> []"
    and rendered: "each render items = Inr parts"
    and dict: "\<And>item t. render item = Inr t \<Longrightarrow> is_JObj item"
  shows "v = JArr items"
proof -
  from nonempty obtain x xs where xs: "items = x # xs"
    by (cases items) auto
  from rendered xs obtain y where "render x = Inr y"
    using each_Cons_Inr [of render x xs parts] by auto
  then have "is_JObj x"
    by (rule dict)
  with items xs show ?thesis
    by (cases v) (auto split: prod.splits)
qed

lemma parse_features_try_valid:
  assumes "parse_features_try loads pystr response = Inr (output, features, choices)"
  shows "\<exists>result items. robust_json_parse loads response = Inr result \<and> is_JObj result \<and>
           has_key result ''features'' \<and> py_get result ''features'' (JArr []) = Inr (JArr items) \<and>
           items \<noteq> [] \<and> features = JArr items"
proof -
  from assms obtain result n items parts where
    r: "robust_json_parse loads response = Inr result" "is_JObj result" "has_key result ''features''"
    and f: "py_get result ''features'' (JArr []) = Inr features"
    and n: "(if features = JNull then Inr 0 else py_len features) = Inr n" "n \<noteq> 0"
    and it: "py_iter features = Inr items" "each (render_feature pystr) items = Inr parts"
    unfolding parse_features_try_def
    by (auto simp: and_then_Inr split: if_splits)
  from n it(1) have "items \<noteq> []"
    by (cases features) (auto split: if_splits)
  with it have "features = JArr items"
    using rendered_items_array [of features items "render_feature pystr" parts]
      render_feature_needs_dict by blast
  with r f \<open>items \<noteq> []\<close> show ?thesis by blast
qed

lemma truthy_iter_nonempty: "py_truthy v \<Longrightarrow> py_iter v = Inr items \<Longrightarrow> items \<noteq> []"
  by (cases v) auto

lemma parse_test_points_try_valid:
  assumes "parse_test_points_try loads pystr feature response = Inr (output, test_points)"
  shows "\<exists>result items. robust_json_parse loads response = Inr result \<and> is_JObj result \<and>
           has_key result ''test_points'' \<and>
           py_get result ''test_points'' (JArr []) = Inr (JArr items) \<and>
           items \<noteq> [] \<and> test_points = JArr items"
proof -
  from assms obtain result items parts where
    r: "robust_json_parse loads response = Inr result" "is_JObj result"
       "has_key result ''test_points''"
    and f: "py_get result ''test_points'' (JArr []) = Inr test_points"
    and t: "py_truthy test_points"
    and it: "py_iter test_points = Inr items" "each (render_test_point pystr) items = Inr parts"
    unfolding parse_test_points_try_def
    by (auto simp: and_then_Inr split: if_splits)
  from t it(1) have ne: "items \<noteq> []"
    by (rule truthy_iter_nonempty)
  with it have "test_points = JArr items"
    using rendered_items_array [of test_points items "render_test_point pystr" parts]
      render_test_point_needs_dict by blast
  with r f ne show ?thesis by blast
qed

lemma parse_test_cases_try_valid:
  assumes "parse_test_cases_try loads pystr response feature test_point = Inr (output, test_cases)"
  shows "\<exists>result items. robust_json_parse loads response = Inr result \<and> is_JObj result \<and>
           has_key result ''test_cases'' \<and>
           py_get result ''test_cases'' (JArr []) = Inr (JArr items) \<and>
           items \<noteq> [] \<and> test_cases = JArr items"
proof -
  from assms obtain result items parts where
    r: "robust_json_parse loads response = Inr result" "is_JObj result"
       "has_key result ''test_cases''"
    and f: "py_get result ''test_cases'' (JArr []) = Inr test_cases"
    and t: "py_truthy test_cases"
    and it: "py_iter test_cases = Inr items" "each (render_test_case pystr) items = Inr parts"
    unfolding parse_test_cases_try_def
    by (auto simp: and_then_Inr split: if_splits)
  from t it(1) have ne: "items \<noteq> []"
    by (rule truthy_iter_nonempty)
  with it have "test_cases = JArr items"
    using rendered_items_array [of test_cases items "render_test_case pystr" parts]
      render_test_case_needs_dict by blast
  with r f ne show ?thesis by blast
qed

text \<open>
  The adapters of \<^verbatim>\<open>generate_chain.py\<close> validate the reply: each one completes only
  when the parsed result is a mapping that holds the stage's key with a non-empty array
  (of mappings), and otherwise returns the error display, the error status and no
  records. They are total functions of the reply: no exception leaves them.
\<close>

lemma chain_adapters_validate:
  "(case parse_features loads pystr response of
      (shown, Generation_complete, features, choices) \<Rightarrow>
        \<exists>result items. robust_json_parse loads response = Inr result \<and> is_JObj result \<and>
           has_key result ''features'' \<and> py_get result ''features'' (JArr []) = Inr (JArr items) \<and>
           items \<noteq> [] \<and> features = JArr items
    | (shown, Error e, features, choices) \<Rightarrow>
        shown = Parse_failed e (raw_preview response) \<and> features = JArr [] \<and> choices = [])"
  "(case parse_test_points loads pystr feature response of
      (shown, Generation_complete, test_points) \<Rightarrow>
        \<exists>result items. robust_json_parse loads response = Inr result \<and> is_JObj result \<and>
           has_key result ''test_points'' \<and>
           py_get result ''test_points'' (JArr []) = Inr (JArr items) \<and>
           items \<noteq> [] \<and> test_points = JArr items
    | (shown, Error e, test_points) \<Rightarrow>
        shown = Parse_failed e (raw_preview response) \<and> test_points = JArr [])"
  "(case parse_test_cases loads pystr response feature test_point of
      (shown, Generation_complete, test_cases) \<Rightarrow>
        \<exists>result items. robust_json_parse loads response = Inr result \<and> is_JObj result \<and>
           has_key result ''test_cases'' \<and>
           py_get result ''test_cases'' (JArr []) = Inr (JArr items) \<and>
           items \<noteq> [] \<and> test_cases = JArr items
    | (shown, Error e, test_cases) \<Rightarrow>
        shown = Parse_failed e (raw_preview response) \<and> test_cases = JArr [])"
proof -
  show "(case parse_features loads pystr response of
      (shown, Generation_complete, features, choices) \<Rightarrow>
        \<exists>result items. robust_json_parse loads response = Inr result \<and> is_JObj result \<and>
           has_key result ''features'' \<and> py_get result ''features'' (JArr []) = Inr (JArr items) \<and>
           items \<noteq> [] \<and> features = JArr items
    | (shown, Error e, features, choices) \<Rightarrow>
        shown = Parse_failed e (raw_preview response) \<and> features = JArr [] \<and> choices = [])"
  proof (cases "parse_features_try loads pystr response")
    case (Inl e)
    then show ?thesis by (simp add: parse_features_def)
  next
    case (Inr r)
    obtain out features choices where r: "r = (out, features, choices)"
      by (cases r)
    from parse_features_try_valid [OF Inr [unfolded r]] show ?thesis
      by (simp add: parse_features_def Inr r)
  qed
  show "(case parse_test_points loads pystr feature response of
      (shown, Generation_complete, test_points) \<Rightarrow>
        \<exists>result items. robust_json_parse loads response = Inr result \<and> is_JObj result \<and>
           has_key result ''test_points'' \<and>
           py_get result ''test_points'' (JArr []) = Inr (JArr items) \<and>
           items \<noteq> [] \<and> test_points = JArr items
    | (shown, Error e, test_points) \<Rightarrow>
        shown = Parse_failed e (raw_preview response) \<and> test_points = JArr [])"
  proof (cases "parse_test_points_try loads pystr feature response")
    case (Inl e)
    then show ?thesis by (simp add: parse_test_points_def)
  next
    case (Inr r)
    obtain out test_points where r: "r = (out, test_points)"
      by (cases r)
    from parse_test_points_try_valid [OF Inr [unfolded r]] show ?thesis
      by (simp add: parse_test_points_def Inr r)
  qed
  show "(case parse_test_cases loads pystr response feature test_point of
      (shown, Generation_complete, test_cases) \<Rightarrow>
        \<exists>result items. robust_json_parse loads response = Inr result \<and> is_JObj result \<and>
           has_key result ''test_cases'' \<and>
           py_get result ''test_cases'' (JArr []) = Inr (JArr items) \<and>
           items \<noteq> [] \<and> test_cases = JArr items
    | (shown, Error e, test_cases) \<Rightarrow>
        shown = Parse_failed e (raw_preview response) \<and> test_cases = JArr [])"
  proof (cases "parse_test_cases_try loads pystr response feature test_point")
    case (Inl e)
    then show ?thesis by (simp add: parse_test_cases_def)
  next
    case (Inr r)
    obtain out test_cases where r: "r = (out, test_cases)"
      by (cases r)
    from parse_test_cases_try_valid [OF Inr [unfolded r]] show ?thesis
      by (simp add: parse_test_cases_def Inr r)
  qed
qed

lemma endpoint_accepts_missing_key:
  assumes "robust_json_parse loads response = Inr (JObj m)"
    and "map_of m k = None \<or> map_of m k = Some (JArr [])"
  shows "stage_endpoint k loads True (Inr response)
           = Inr \<lparr>success = True, records = [], raw_response = Some response, error = None\<rparr>"
  using assms
  by (auto simp: stage_endpoint_def stage_try_def and_then_def validate_records_def)

text \<open>
  C2. The endpoints of \<^verbatim>\<open>api.py\<close> do not make the checks that their siblings in
  \<^verbatim>\<open>generate_chain.py\<close> make: they read the key with the default \<^verbatim>\<open>[]\<close>, so a reply
  that decodes to a mapping without the key, or with an empty array under it, is reported
  as a success with no records (lemma \<open>endpoint_accepts_missing_key\<close>). Evaluated on
  such replies, next to \<^verbatim>\<open>parse_features\<close> on the same reply:
\<close>

theorem endpoint_succeeds_without_key:
  \<open>extract_features py_loads True (Inr ''{"summary": "no features found"}'')
     = Inr \<lparr>success = True, records = [],
            raw_response = Some ''{"summary": "no features found"}'', error = None\<rparr> \<and>
   generate_test_points py_loads True (Inr ''{"test_points": []}'')
     = Inr \<lparr>success = True, records = [],
            raw_response = Some ''{"test_points": []}'', error = None\<rparr> \<and>
   generate_test_cases py_loads True (Inr ''{"summary": "no features found"}'')
     = Inr \<lparr>success = True, records = [],
            raw_response = Some ''{"summary": "no features found"}'', error = None\<rparr> \<and>
   parse_features py_loads (\<lambda>v. []) ''{"summary": "no features found"}''
     = (Parse_failed (ValueError ''Parse error: missing 'features' field'')
          (raw_preview ''{"summary": "no features found"}''),
        Error (ValueError ''Parse error: missing 'features' field''), JArr [], [])\<close>
  by code_simp

end
